theory Spec2Isabelle
  imports Complex_Main "HOL-Library.Signed_Division" "HOL-Library.Log_Nat"
begin

section \<open>The step sequencer of \<^verbatim>\<open>src/App.tsx\<close>\<close>

text \<open>
  JavaScript numbers are modelled as follows: the grid position and array indices, which
  the program only ever increments and reduces with \<^verbatim>\<open>%\<close>, are \<^typ>\<open>int\<close>; times,
  frequencies, samples and the other synthesis parameters are \<^typ>\<open>real\<close>. The arithmetic
  of the Noise synthesizer (the size of its buffer and its samples) and the conversion of a
  control's value to a number round as IEEE 754 prescribes; the sums of times in the Sweep
  and Pulse synthesizers are exact.
\<close>

subsection \<open>Data model\<close>

datatype Track = SWEEP | PULSE | NOISE | SAMPLE

definition BEATS_PER_BAR :: int where
  "BEATS_PER_BAR = 16"

text \<open>
  The four sequence interfaces share the field \<^verbatim>\<open>steps\<close>; \<^verbatim>\<open>toggleSequenceStep\<close> is
  generic in \<^verbatim>\<open>T extends SweepSequence | PulseSequence | NoiseSequence | SampleSequence\<close>.
  The shared field is the root of an extensible record, and the remaining fields of each
  interface are its extension (the \<^verbatim>\<open>...params\<close> of the destructuring).
\<close>

record Sequence =
  steps :: "bool list"

record SweepSequence = Sequence +
  attack :: real
  release :: real

record PulseSequence = Sequence +
  frequency :: real
  lfo :: real

record NoiseSequence = Sequence +
  duration :: real
  band :: real

record SampleSequence = Sequence +
  rate :: real

record App =
  currentStep :: int
  tempo :: real
  isPlaying :: bool
  selectedTrack :: Track
  sweepSequence :: SweepSequence
  pulseSequence :: PulseSequence
  noiseSequence :: NoiseSequence
  sampleSequence :: SampleSequence

text \<open>The initial values given to \<^verbatim>\<open>useState\<close>.\<close>

definition new_steps :: "bool list" where
  "new_steps = replicate (nat BEATS_PER_BAR) False"

definition initial_App :: App where
  "initial_App =
     \<lparr> currentStep = 0, tempo = 120, isPlaying = False, selectedTrack = SWEEP,
       sweepSequence = \<lparr> steps = new_steps, attack = 0.2, release = 0.5 \<rparr>,
       pulseSequence = \<lparr> steps = new_steps, frequency = 880, lfo = 30 \<rparr>,
       noiseSequence = \<lparr> steps = new_steps, duration = 1, band = 1000 \<rparr>,
       sampleSequence = \<lparr> steps = new_steps, rate = 1 \<rparr> \<rparr>"

subsection \<open>JavaScript array primitives\<close>

text \<open>
  \<^verbatim>\<open>xs[i]\<close> is \<^verbatim>\<open>undefined\<close> (here \<^const>\<open>None\<close>) outside the array, and
  \<^verbatim>\<open>!undefined\<close> is \<^verbatim>\<open>true\<close>. \<^verbatim>\<open>slice\<close> clamps its bounds to the array and counts
  a negative bound from the end.
\<close>

definition index :: "'a list \<Rightarrow> int \<Rightarrow> 'a option" where
  "index xs i = (if 0 \<le> i \<and> i < int (length xs) then Some (xs ! nat i) else None)"

definition truthy :: "bool option \<Rightarrow> bool" where
  "truthy v = (case v of None \<Rightarrow> False | Some b \<Rightarrow> b)"

definition relative_index :: "int \<Rightarrow> nat \<Rightarrow> nat" where
  "relative_index k len =
     (if k < 0 then nat (max (int len + k) 0) else min (nat k) len)"

definition slice :: "'a list \<Rightarrow> int \<Rightarrow> int \<Rightarrow> 'a list" where
  "slice xs start end =
     (let k = relative_index start (length xs);
          final = relative_index end (length xs)
      in take (final - k) (drop k xs))"

definition slice_from :: "'a list \<Rightarrow> int \<Rightarrow> 'a list" where
  "slice_from xs start = drop (relative_index start (length xs)) xs"

subsection \<open>Toggling a gate\<close>

text \<open>
  \<^verbatim>\<open>[...steps.slice(0, i), !steps[i], ...steps.slice(i + 1)]\<close>
\<close>

definition trackSteps :: "int \<Rightarrow> bool list \<Rightarrow> bool list" where
  "trackSteps i stepsv =
     slice stepsv 0 i @ [\<not> truthy (index stepsv i)] @ slice_from stepsv (i + 1)"

text \<open>
  \<^verbatim>\<open>const { steps, ...params } = prevState; return { ...params, steps: trackSteps }\<close>
\<close>

definition toggleSequenceStep :: "int \<Rightarrow> 'a Sequence_scheme \<Rightarrow> 'a Sequence_scheme" where
  "toggleSequenceStep i prevState =
     (let stepsv = steps prevState;
          params = Sequence.more prevState
      in \<lparr> steps = trackSteps i stepsv, \<dots> = params \<rparr>)"

definition handleStepClick :: "Track \<Rightarrow> int \<Rightarrow> App \<Rightarrow> App" where
  "handleStepClick track i app =
     (if track = SWEEP then app\<lparr> sweepSequence := toggleSequenceStep i (sweepSequence app) \<rparr>
      else if track = PULSE then app\<lparr> pulseSequence := toggleSequenceStep i (pulseSequence app) \<rparr>
      else if track = NOISE then app\<lparr> noiseSequence := toggleSequenceStep i (noiseSequence app) \<rparr>
      else app\<lparr> sampleSequence := toggleSequenceStep i (sampleSequence app) \<rparr>)"

text \<open>
  The same array expression against an explicit store of arrays, to follow which arrays
  are allocated and which are written: each \<^verbatim>\<open>slice\<close> and the array literal allocate a
  new array, and nothing writes to an existing one.
\<close>

record store =
  arrays :: "nat \<rightharpoonup> bool list"
  next_address :: nat

definition allocate :: "bool list \<Rightarrow> store \<Rightarrow> nat \<times> store" where
  "allocate xs s =
     (next_address s,
      s\<lparr> arrays := (arrays s)(next_address s \<mapsto> xs), next_address := Suc (next_address s) \<rparr>)"

definition trackSteps_in_store :: "int \<Rightarrow> nat \<Rightarrow> store \<Rightarrow> (nat \<times> store) option" where
  "trackSteps_in_store i stepsv s =
     (case arrays s stepsv of
        None \<Rightarrow> None
      | Some xs \<Rightarrow>
          (let (before, s1) = allocate (slice xs 0 i) s;
               flipped = \<not> truthy (index xs i);
               (after, s2) = allocate (slice_from xs (i + 1)) s1
           in case (arrays s2 before, arrays s2 after) of
                (Some bs, Some as) \<Rightarrow> Some (allocate (bs @ [flipped] @ as) s2)
              | _ \<Rightarrow> None))"

subsection \<open>Double and single precision\<close>

text \<open>
  A binary floating-point format with \<open>p\<close> significant bits and least exponent \<open>emin\<close>
  holds zero and the numbers \<open>m \<times> 2\<^sup>e\<^sup>-\<^sup>p\<^sup>+\<^sup>1\<close> with \<open>\<bar>m\<bar> < 2\<^sup>p\<close> and \<open>e \<ge> emin\<close>. The result
  of an operation is the exact result rounded to the nearest such number, to the one with
  an even \<open>m\<close> when two are equally near. \<open>exponent x\<close> is the \<open>e\<close> with
  \<open>2\<^sup>e \<le> \<bar>x\<bar> < 2\<^sup>e\<^sup>+\<^sup>1\<close>. Results beyond the largest number of the format, which
  JavaScript gives as \<^verbatim>\<open>Infinity\<close>, are not modelled.
\<close>

definition exponent :: "real \<Rightarrow> int" where
  "exponent x =
     (if 1 \<le> \<bar>x\<bar> then bitlen \<lfloor>\<bar>x\<bar>\<rfloor> - 1 else - bitlen (\<lceil>1 / \<bar>x\<bar>\<rceil> - 1))"

definition round_half_even :: "real \<Rightarrow> int" where
  "round_half_even x =
     (let n = \<lfloor>x\<rfloor>; r = x - of_int n
      in if r < 1 / 2 then n else if 1 / 2 < r then n + 1 else if even n then n else n + 1)"

definition round_binary :: "nat \<Rightarrow> int \<Rightarrow> real \<Rightarrow> real" where
  "round_binary p emin x =
     (if x = 0 then 0
      else (let u = 2 powi (max (exponent x) emin - int p + 1)
            in of_int (round_half_even (x / u)) * u))"

definition to_double :: "real \<Rightarrow> real" where
  "to_double = round_binary 53 (- 1022)"

definition to_float32 :: "real \<Rightarrow> real" where
  "to_float32 = round_binary 24 (- 126)"

text \<open>The operators \<^verbatim>\<open>*\<close> and \<^verbatim>\<open>-\<close> on numbers.\<close>

definition times_double :: "real \<Rightarrow> real \<Rightarrow> real" where
  "times_double x y = to_double (x * y)"

definition minus_double :: "real \<Rightarrow> real \<Rightarrow> real" where
  "minus_double x y = to_double (x - y)"

subsection \<open>The audio context\<close>

text \<open>
  The program drives one global \<^verbatim>\<open>AudioContext\<close>. Its model records, in order, every
  call the program makes on the context and on the nodes it creates; nodes and buffers are
  named by consecutive numbers. The calls fail as the Web Audio API prescribes:
  \<^verbatim>\<open>createBuffer\<close> throws \<^verbatim>\<open>NotSupportedError\<close> for a length or a channel count of zero,
  and every method taking a time throws \<^verbatim>\<open>RangeError\<close> for a negative one. A call that
  throws leaves the context as the calls before it left it. Limits of memory are not
  modelled.

  \<^verbatim>\<open>resume()\<close> returns a promise that the program neither awaits nor inspects; whether
  it is fulfilled is the field \<open>resume_succeeds\<close>. \<^verbatim>\<open>Math.random()\<close> reads the next
  value of the sequence \<open>random_values\<close>.
\<close>

datatype error = NotSupportedError | RangeError | IndexSizeError

datatype context_state = Suspended | Running | Closed

datatype node_kind = Oscillator | Gain | BufferSource | BiquadFilter

datatype node_type = Sine | Square | Bandpass

datatype param = Frequency nat | GainValue nat | PlaybackRate nat

datatype endpoint = Node nat | Param param | Analyzer | Destination

datatype call =
    Create node_kind nat
  | CreateBuffer nat nat nat real
  | SetPeriodicWave nat
  | SetType nat node_type
  | SetBuffer nat nat
  | SetValue param real
  | CancelScheduledValues param real
  | SetValueAtTime param real real
  | LinearRampToValueAtTime param real real
  | Connect endpoint endpoint
  | Start nat real
  | Stop nat real
  | Resume

record audio =
  state :: context_state
  currentTime :: real
  sampleRate :: real
  resume_succeeds :: bool
  fresh :: nat
  calls :: "call list"
  channelData :: "nat \<times> nat \<rightharpoonup> real list"
  random_values :: "nat \<Rightarrow> real"
  random_drawn :: nat

type_synonym 'a action = "audio \<Rightarrow> (error + 'a) \<times> audio"

definition succeed :: "unit action" where
  "succeed w = (Inr (), w)"

definition throw :: "error \<Rightarrow> 'a action" where
  "throw e w = (Inl e, w)"

definition andThen :: "'a action \<Rightarrow> ('a \<Rightarrow> 'b action) \<Rightarrow> 'b action" where
  "andThen m f w = (case m w of (Inl e, w') \<Rightarrow> (Inl e, w') | (Inr x, w') \<Rightarrow> f x w')"

definition read :: "(audio \<Rightarrow> 'a) \<Rightarrow> 'a action" where
  "read field w = (Inr (field w), w)"

definition perform :: "(audio \<Rightarrow> audio) \<Rightarrow> unit action" where
  "perform f w = (Inr (), f w)"

definition invoke :: "call \<Rightarrow> unit action" where
  "invoke c w = (Inr (), w\<lparr> calls := calls w @ [c] \<rparr>)"

definition at_time :: "real \<Rightarrow> call \<Rightarrow> unit action" where
  "at_time t c = (if t < 0 then throw RangeError else invoke c)"

definition create :: "node_kind \<Rightarrow> nat action" where
  "create k w =
     (Inr (fresh w), w\<lparr> fresh := Suc (fresh w), calls := calls w @ [Create k (fresh w)] \<rparr>)"

definition createOscillator :: "nat action" where
  "createOscillator = create Oscillator"

definition createGain :: "nat action" where
  "createGain = create Gain"

definition createBufferSource :: "nat action" where
  "createBufferSource = create BufferSource"

definition createBiquadFilter :: "nat action" where
  "createBiquadFilter = create BiquadFilter"

definition setPeriodicWave :: "nat \<Rightarrow> unit action" where
  "setPeriodicWave n = invoke (SetPeriodicWave n)"

definition set_type :: "nat \<Rightarrow> node_type \<Rightarrow> unit action" where
  "set_type n ty = invoke (SetType n ty)"

definition set_buffer :: "nat \<Rightarrow> nat \<Rightarrow> unit action" where
  "set_buffer n b = invoke (SetBuffer n b)"

definition set_value :: "param \<Rightarrow> real \<Rightarrow> unit action" where
  "set_value p v = invoke (SetValue p v)"

definition cancelScheduledValues :: "param \<Rightarrow> real \<Rightarrow> unit action" where
  "cancelScheduledValues p t = at_time t (CancelScheduledValues p t)"

definition setValueAtTime :: "param \<Rightarrow> real \<Rightarrow> real \<Rightarrow> unit action" where
  "setValueAtTime p v t = at_time t (SetValueAtTime p v t)"

definition linearRampToValueAtTime :: "param \<Rightarrow> real \<Rightarrow> real \<Rightarrow> unit action" where
  "linearRampToValueAtTime p v t = at_time t (LinearRampToValueAtTime p v t)"

text \<open>\<^verbatim>\<open>a.connect(b)\<close> returns \<^verbatim>\<open>b\<close>, which is what lets the program chain the calls.\<close>

definition connect :: "endpoint \<Rightarrow> endpoint \<Rightarrow> endpoint action" where
  "connect a b = andThen (invoke (Connect a b)) (\<lambda>_ w. (Inr b, w))"

definition start :: "nat \<Rightarrow> real \<Rightarrow> unit action" where
  "start n t = at_time t (Start n t)"

definition stop :: "nat \<Rightarrow> real \<Rightarrow> unit action" where
  "stop n t = at_time t (Stop n t)"

definition resume :: "audio \<Rightarrow> audio" where
  "resume w =
     w\<lparr> calls := calls w @ [Resume],
        state := (if resume_succeeds w then Running else state w) \<rparr>"

text \<open>
  The length of a buffer is an \<^verbatim>\<open>unsigned long\<close>: the number passed is truncated towards
  zero and reduced modulo \<open>2\<^sup>3\<^sup>2\<close>. A new buffer holds zeros.
\<close>

definition to_unsigned_long :: "real \<Rightarrow> nat" where
  "to_unsigned_long x = nat ((if x < 0 then \<lceil>x\<rceil> else \<lfloor>x\<rfloor>) mod 2 ^ 32)"

definition createBuffer :: "nat \<Rightarrow> real \<Rightarrow> real \<Rightarrow> nat action" where
  "createBuffer numberOfChannels len hz w =
     (let n = to_unsigned_long len in
      if numberOfChannels = 0 \<or> n = 0 then (Inl NotSupportedError, w)
      else (Inr (fresh w),
            w\<lparr> fresh := Suc (fresh w),
               calls := calls w @ [CreateBuffer (fresh w) numberOfChannels n hz],
               channelData := (\<lambda>(b, c).
                  if b = fresh w \<and> c < numberOfChannels then Some (replicate n 0)
                  else channelData w (b, c)) \<rparr>))"

definition getChannelData :: "nat \<Rightarrow> nat \<Rightarrow> (nat \<times> nat) action" where
  "getChannelData b c w =
     (case channelData w (b, c) of
        None \<Rightarrow> (Inl IndexSizeError, w)
      | Some _ \<Rightarrow> (Inr (b, c), w))"

text \<open>
  A write to a typed array outside its bounds is ignored; a \<^verbatim>\<open>Float32Array\<close> holds the
  number written in single precision.
\<close>

definition store_sample :: "nat \<times> nat \<Rightarrow> nat \<Rightarrow> real \<Rightarrow> audio \<Rightarrow> audio" where
  "store_sample d i v w =
     (case channelData w d of
        None \<Rightarrow> w
      | Some xs \<Rightarrow> if i < length xs then w\<lparr> channelData := (channelData w)(d \<mapsto> xs[i := to_float32 v]) \<rparr>
          else w)"

definition Math_random :: "audio \<Rightarrow> real \<times> audio" where
  "Math_random w = (random_values w (random_drawn w), w\<lparr> random_drawn := Suc (random_drawn w) \<rparr>)"

subsection \<open>The track synthesizers\<close>

definition playSweep :: "App \<Rightarrow> real \<Rightarrow> unit action" where
  "playSweep app time =
     (let sweepLength = 2 in
      andThen createOscillator (\<lambda>osc.
      andThen (setPeriodicWave osc) (\<lambda>_.
      andThen (set_value (Frequency osc) 380) (\<lambda>_.
      andThen createGain (\<lambda>sweepEnv.
      andThen (cancelScheduledValues (GainValue sweepEnv) time) (\<lambda>_.
      andThen (setValueAtTime (GainValue sweepEnv) 0 time) (\<lambda>_.
      andThen (linearRampToValueAtTime (GainValue sweepEnv) 1
                 (time + attack (sweepSequence app))) (\<lambda>_.
      andThen (linearRampToValueAtTime (GainValue sweepEnv) 0
                 (time + sweepLength - release (sweepSequence app))) (\<lambda>_.
      andThen (if selectedTrack app = SWEEP
               then andThen (connect (Node osc) (Node sweepEnv)) (\<lambda>e.
                    andThen (connect e Analyzer) (\<lambda>a. connect a Destination))
               else andThen (connect (Node osc) (Node sweepEnv)) (\<lambda>e.
                    connect e Destination)) (\<lambda>_.
      andThen (start osc time) (\<lambda>_.
      stop osc (time + sweepLength))))))))))))"

definition playPulse :: "App \<Rightarrow> real \<Rightarrow> unit action" where
  "playPulse app time =
     (let pulseTime = 1 in
      andThen createOscillator (\<lambda>osc.
      andThen (set_type osc Sine) (\<lambda>_.
      andThen (set_value (Frequency osc) (frequency (pulseSequence app))) (\<lambda>_.
      andThen createGain (\<lambda>amp.
      andThen (set_value (GainValue amp) 1) (\<lambda>_.
      andThen createOscillator (\<lambda>lfo.
      andThen (set_type lfo Square) (\<lambda>_.
      andThen (set_value (Frequency lfo) (PulseSequence.lfo (pulseSequence app))) (\<lambda>_.
      andThen (connect (Node lfo) (Param (GainValue amp))) (\<lambda>_.
      andThen (if selectedTrack app = PULSE
               then andThen (connect (Node osc) (Node amp)) (\<lambda>e.
                    andThen (connect e Analyzer) (\<lambda>a. connect a Destination))
               else andThen (connect (Node osc) (Node amp)) (\<lambda>e.
                    connect e Destination)) (\<lambda>_.
      andThen (start lfo 0) (\<lambda>_.
      andThen (start osc time) (\<lambda>_.
      stop osc (time + pulseTime))))))))))))))"

text \<open>
  \<^verbatim>\<open>for (let i = 0; i < bufferSize; i++) { data[i] = Math.random() * 2 - 1; }\<close>
\<close>

function fill :: "real \<Rightarrow> nat \<times> nat \<Rightarrow> nat \<Rightarrow> audio \<Rightarrow> audio" where
  "fill bufferSize data i w =
     (if real i < bufferSize
      then (let (r, w') = Math_random w
            in fill bufferSize data (Suc i)
                 (store_sample data i (minus_double (times_double r 2) 1) w'))
      else w)"
  by pat_completeness auto
termination
proof (relation "measure (\<lambda>(bufferSize, data, i, w). nat \<lceil>bufferSize\<rceil> - i)")
  show "wf (measure (\<lambda>(bufferSize, data, i, w). nat \<lceil>bufferSize\<rceil> - i))"
    by simp
next
  fix bufferSize :: real and data :: "nat \<times> nat" and i :: nat and w x :: audio and r :: real
  assume "real i < bufferSize"
  then have "i < nat \<lceil>bufferSize\<rceil>"
    by linarith
  then show "((bufferSize, data, Suc i,
          store_sample data i (minus_double (times_double r 2) 1) x), bufferSize, data, i, w)
        \<in> measure (\<lambda>(bufferSize, data, i, w). nat \<lceil>bufferSize\<rceil> - i)"
    by simp
qed

definition playNoise :: "App \<Rightarrow> real \<Rightarrow> unit action" where
  "playNoise app time =
     andThen (read sampleRate) (\<lambda>rate1.
     (let bufferSize = times_double rate1 (duration (noiseSequence app)) in
      andThen (read sampleRate) (\<lambda>rate2.
      andThen (createBuffer 1 bufferSize rate2) (\<lambda>buffer.
      andThen (getChannelData buffer 0) (\<lambda>data.
      andThen (perform (fill bufferSize data 0)) (\<lambda>_.
      andThen createBufferSource (\<lambda>noise.
      andThen (set_buffer noise buffer) (\<lambda>_.
      andThen createBiquadFilter (\<lambda>bandpass.
      andThen (set_type bandpass Bandpass) (\<lambda>_.
      andThen (set_value (Frequency bandpass) (band (noiseSequence app))) (\<lambda>_.
      andThen (if selectedTrack app = NOISE
               then andThen (connect (Node noise) (Node bandpass)) (\<lambda>e.
                    andThen (connect e Analyzer) (\<lambda>a. connect a Destination))
               else andThen (connect (Node noise) (Node bandpass)) (\<lambda>e.
                    connect e Destination)) (\<lambda>_.
      start noise time))))))))))))"

definition playSample :: "App \<Rightarrow> nat \<Rightarrow> real \<Rightarrow> nat action" where
  "playSample app audioBuffer time =
     andThen createBufferSource (\<lambda>sampleSource.
     andThen (set_buffer sampleSource audioBuffer) (\<lambda>_.
     andThen (set_value (PlaybackRate sampleSource) (rate (sampleSequence app))) (\<lambda>_.
     andThen (if selectedTrack app = SAMPLE
              then andThen (connect (Node sampleSource) Analyzer) (\<lambda>a. connect a Destination)
              else connect (Node sampleSource) Destination) (\<lambda>_.
     andThen (start sampleSource time) (\<lambda>_ w.
     (Inr sampleSource, w))))))"

definition playSound :: "App \<Rightarrow> Track \<Rightarrow> real \<Rightarrow> nat option \<Rightarrow> unit action" where
  "playSound app track time audioBuffer =
     (if track = SWEEP then playSweep app time
      else if track = PULSE then playPulse app time
      else if track = NOISE then playNoise app time
      else case audioBuffer of
             None \<Rightarrow> succeed
           | Some b \<Rightarrow> andThen (playSample app b time) (\<lambda>_. succeed))"

subsection \<open>The scheduler\<close>

text \<open>
  The callback of \<^verbatim>\<open>setInterval\<close>. \<^verbatim>\<open>requestAnimationFrame(visualize)\<close> only reads the
  analyzer and draws on the canvas, and is left out. \<^verbatim>\<open>setCurrentStep\<close> is called before
  the tracks are fired, so the new position is kept when a later call throws. The callback
  always calls \<^verbatim>\<open>playSound\<close> with two arguments: \<^verbatim>\<open>audioBuffer\<close> is \<^verbatim>\<open>undefined\<close>.
\<close>

definition gate :: "bool list \<Rightarrow> int \<Rightarrow> bool" where
  "gate stepsv n = truthy (index stepsv n)"

definition when_gate :: "bool \<Rightarrow> unit action \<Rightarrow> unit action" where
  "when_gate b m = (if b then m else succeed)"

definition fire :: "App \<Rightarrow> int \<Rightarrow> real \<Rightarrow> unit action" where
  "fire app nextStep t =
     andThen (when_gate (gate (steps (sweepSequence app)) nextStep) (playSound app SWEEP t None)) (\<lambda>_.
     andThen (when_gate (gate (steps (pulseSequence app)) nextStep) (playSound app PULSE t None)) (\<lambda>_.
     andThen (when_gate (gate (steps (noiseSequence app)) nextStep) (playSound app NOISE t None)) (\<lambda>_.
     when_gate (gate (steps (sampleSequence app)) nextStep) (playSound app SAMPLE t None))))"

definition tick :: "App \<Rightarrow> audio \<Rightarrow> (error + unit) \<times> App \<times> audio" where
  "tick app w =
     (if \<not> isPlaying app then (Inr (), app, w)
      else
        let w1 = (if state w = Suspended then resume w else w);
            nextStep = (currentStep app + 1) smod BEATS_PER_BAR;
            t = currentTime w1;
            app' = app\<lparr> currentStep := nextStep \<rparr>;
            (result, w2) = fire app nextStep t w1
        in (result, app', w2))"

text \<open>
  \<open>k\<close> ticks in a row; between two ticks the environment \<open>env\<close> may change the audio
  context (its clock advances, a pending \<^verbatim>\<open>resume\<close> settles). An exception thrown by a
  tick does not stop the timer.
\<close>

fun ticks :: "(audio \<Rightarrow> audio) \<Rightarrow> nat \<Rightarrow> App \<times> audio \<Rightarrow> App \<times> audio" where
  "ticks env 0 s = s"
| "ticks env (Suc k) (app, w) =
     (case tick app w of (result, app', w') \<Rightarrow> ticks env k (app', env w'))"

subsection \<open>The parameter controls\<close>

text \<open>
  Each \<^verbatim>\<open>onChange\<close> handler stores \<^verbatim>\<open>Number(e.target.value)\<close>; the argument \<open>v\<close> of a
  handler is that number.
\<close>

definition bpm_onChange :: "real \<Rightarrow> App \<Rightarrow> App" where
  "bpm_onChange v app = app\<lparr> tempo := v \<rparr>"

definition attack_onChange :: "real \<Rightarrow> App \<Rightarrow> App" where
  "attack_onChange v app = app\<lparr> sweepSequence := (sweepSequence app)\<lparr> attack := v \<rparr> \<rparr>"

definition release_onChange :: "real \<Rightarrow> App \<Rightarrow> App" where
  "release_onChange v app = app\<lparr> sweepSequence := (sweepSequence app)\<lparr> release := v \<rparr> \<rparr>"

definition hz_onChange :: "real \<Rightarrow> App \<Rightarrow> App" where
  "hz_onChange v app = app\<lparr> pulseSequence := (pulseSequence app)\<lparr> frequency := v \<rparr> \<rparr>"

definition lfo_onChange :: "real \<Rightarrow> App \<Rightarrow> App" where
  "lfo_onChange v app = app\<lparr> pulseSequence := (pulseSequence app)\<lparr> lfo := v \<rparr> \<rparr>"

definition duration_onChange :: "real \<Rightarrow> App \<Rightarrow> App" where
  "duration_onChange v app = app\<lparr> noiseSequence := (noiseSequence app)\<lparr> duration := v \<rparr> \<rparr>"

definition band_onChange :: "real \<Rightarrow> App \<Rightarrow> App" where
  "band_onChange v app = app\<lparr> noiseSequence := (noiseSequence app)\<lparr> band := v \<rparr> \<rparr>"

text \<open>
  Every control is an \<^verbatim>\<open><input type="range">\<close> with the attributes \<^verbatim>\<open>min\<close>, \<^verbatim>\<open>max\<close> and
  \<^verbatim>\<open>step\<close> below. The browser keeps the value of such a control valid (the value
  sanitization algorithm of HTML for the Range state): an attempted value that is not a
  number (\<^const>\<open>None\<close>) is replaced by the default value, the middle of the range; a
  value below \<^verbatim>\<open>min\<close> by \<^verbatim>\<open>min\<close>; a value above \<^verbatim>\<open>max\<close> by \<^verbatim>\<open>max\<close>; and the value is
  rounded to the nearest step counted from \<^verbatim>\<open>min\<close>, upwards when two are equally near,
  and not beyond \<^verbatim>\<open>max\<close>.
\<close>

record range_input =
  range_min :: real
  range_max :: real
  range_step :: real

definition bpm_input :: range_input where
  "bpm_input = \<lparr> range_min = 60, range_max = 240, range_step = 1 \<rparr>"

definition attack_input :: range_input where
  "attack_input = \<lparr> range_min = 0, range_max = 1, range_step = 0.1 \<rparr>"

definition release_input :: range_input where
  "release_input = \<lparr> range_min = 0, range_max = 1, range_step = 0.1 \<rparr>"

definition hz_input :: range_input where
  "hz_input = \<lparr> range_min = 660, range_max = 1320, range_step = 1 \<rparr>"

definition lfo_input :: range_input where
  "lfo_input = \<lparr> range_min = 20, range_max = 40, range_step = 1 \<rparr>"

definition duration_input :: range_input where
  "duration_input = \<lparr> range_min = 0, range_max = 2, range_step = 0.1 \<rparr>"

definition band_input :: range_input where
  "band_input = \<lparr> range_min = 400, range_max = 1200, range_step = 5 \<rparr>"

definition rate_input :: range_input where
  "rate_input = \<lparr> range_min = 0.1, range_max = 2, range_step = 0.1 \<rparr>"

definition default_value :: "range_input \<Rightarrow> real" where
  "default_value c =
     (if range_max c < range_min c then range_min c
      else range_min c + (range_max c - range_min c) / 2)"

definition nearest_step :: "range_input \<Rightarrow> real \<Rightarrow> real" where
  "nearest_step c x =
     (let st = (if 0 < range_step c then range_step c else 1);
          v = range_min c + of_int \<lfloor>(x - range_min c) / st + 1 / 2\<rfloor> * st
      in if v \<le> range_max c then v
         else range_min c + of_int \<lfloor>(range_max c - range_min c) / st\<rfloor> * st)"

definition sanitize :: "range_input \<Rightarrow> real option \<Rightarrow> real" where
  "sanitize c attempted =
     (let x = (case attempted of None \<Rightarrow> default_value c | Some v \<Rightarrow> v);
          y = (if x < range_min c then range_min c
               else if range_min c \<le> range_max c \<and> range_max c < x then range_max c
               else x)
      in nearest_step c y)"

text \<open>
  A change of a control calls its handler with the control's value, a decimal string that
  \<^verbatim>\<open>Number\<close> converts to the nearest double. The playback-rate control has no
  \<^verbatim>\<open>onChange\<close> handler, so a change of it stores nothing.
\<close>

definition Number :: "real \<Rightarrow> real" where
  "Number s = to_double s"

definition change :: "range_input \<Rightarrow> (real \<Rightarrow> App \<Rightarrow> App) \<Rightarrow> real option \<Rightarrow> App \<Rightarrow> App" where
  "change control onChange attempted app = onChange (Number (sanitize control attempted)) app"

definition rate_change :: "real option \<Rightarrow> App \<Rightarrow> App" where
  "rate_change attempted app = app"

subsection \<open>Reading the record of calls\<close>

definition issued :: "audio \<Rightarrow> audio \<Rightarrow> call list" where
  "issued w w' = drop (length (calls w)) (calls w')"

fun automation :: "param \<Rightarrow> call list \<Rightarrow> call list" where
  "automation p [] = []"
| "automation p (CancelScheduledValues q t # cs) =
     (if q = p then CancelScheduledValues q t # automation p cs else automation p cs)"
| "automation p (SetValueAtTime q v t # cs) =
     (if q = p then SetValueAtTime q v t # automation p cs else automation p cs)"
| "automation p (LinearRampToValueAtTime q v t # cs) =
     (if q = p then LinearRampToValueAtTime q v t # automation p cs else automation p cs)"
| "automation p (c # cs) = automation p cs"

fun start_times :: "nat \<Rightarrow> call list \<Rightarrow> real list" where
  "start_times n [] = []"
| "start_times n (Start m t # cs) = (if m = n then t # start_times n cs else start_times n cs)"
| "start_times n (c # cs) = start_times n cs"

fun stop_times :: "nat \<Rightarrow> call list \<Rightarrow> real list" where
  "stop_times n [] = []"
| "stop_times n (Stop m t # cs) = (if m = n then t # stop_times n cs else stop_times n cs)"
| "stop_times n (c # cs) = stop_times n cs"



fun kinds_created :: "call list \<Rightarrow> node_kind list" where
  "kinds_created [] = []"
| "kinds_created (Create k n # cs) = k # kinds_created cs"
| "kinds_created (c # cs) = kinds_created cs"

fun starts :: "call list \<Rightarrow> real list" where
  "starts [] = []"
| "starts (Start n t # cs) = t # starts cs"
| "starts (c # cs) = starts cs"

fun stops :: "call list \<Rightarrow> real list" where
  "stops [] = []"
| "stops (Stop n t # cs) = t # stops cs"
| "stops (c # cs) = stops cs"

subsection \<open>Example inputs and auxiliary notions\<close>

text \<open>The context right after \<^verbatim>\<open>createBuffer\<close> in \<^verbatim>\<open>playNoise\<close> has succeeded.\<close>

definition noise_buffer_created :: "App \<Rightarrow> audio \<Rightarrow> audio" where
  "noise_buffer_created app w =
     w\<lparr> fresh := Suc (fresh w),
        calls := calls w @ [CreateBuffer (fresh w) 1
           (to_unsigned_long (times_double (sampleRate w) (duration (noiseSequence app)))) (sampleRate w)],
        channelData := (\<lambda>(b, c).
           if b = fresh w \<and> c < 1
           then Some (replicate (to_unsigned_long (times_double (sampleRate w) (duration (noiseSequence app)))) 0)
           else channelData w (b, c)) \<rparr>"

text \<open>
  The same context with a longer history of calls \<open>c\<close> before it, in state \<open>s\<close>, and
  with outcome \<open>b\<close> of \<^verbatim>\<open>resume\<close>. An action is oblivious when it does the same whatever
  these are.
\<close>

definition with_history :: "call list \<Rightarrow> context_state \<Rightarrow> bool \<Rightarrow> audio \<Rightarrow> audio" where
  "with_history c s b w = w\<lparr> calls := c @ calls w, state := s, resume_succeeds := b \<rparr>"

definition oblivious :: "'a action \<Rightarrow> bool" where
  "oblivious m \<longleftrightarrow>
     (\<forall>c s b w. m (with_history c s b w) = (case m w of (r, w') \<Rightarrow> (r, with_history c s b w')))"

text \<open>
  \<open>fired w w' ks ss ts\<close>: from \<open>w\<close> to \<open>w'\<close> calls were only added, and the calls added
  create nodes of the kinds \<open>ks\<close>, start sources at the times \<open>ss\<close> and stop them at the
  times \<open>ts\<close>, in this order. \<open>due app track\<close>: the gate of the track at the position
  after the current one is set.
\<close>

definition fired :: "audio \<Rightarrow> audio \<Rightarrow> node_kind list \<Rightarrow> real list \<Rightarrow> real list \<Rightarrow> bool" where
  "fired w w' ks ss ts \<longleftrightarrow>
     (\<exists>cs. calls w' = calls w @ cs \<and> kinds_created cs = ks \<and> starts cs = ss \<and> stops cs = ts)
     \<and> sampleRate w' = sampleRate w"

definition due :: "App \<Rightarrow> Track \<Rightarrow> bool" where
  "due app track =
     gate (case track of
             SWEEP \<Rightarrow> steps (sweepSequence app)
           | PULSE \<Rightarrow> steps (pulseSequence app)
           | NOISE \<Rightarrow> steps (noiseSequence app)
           | SAMPLE \<Rightarrow> steps (sampleSequence app))
       ((currentStep app + 1) smod BEATS_PER_BAR)"

text \<open>A context as the browser provides it before the first user gesture.\<close>

definition example_audio :: audio where
  "example_audio =
     \<lparr> state = Suspended, currentTime = 0, sampleRate = 44100, resume_succeeds = True,
       fresh = 0, calls = [], channelData = (\<lambda>_. None), random_values = (\<lambda>_. 1 / 2),
       random_drawn = 0 \<rparr>"

text \<open>
  A playing sequencer whose Sweep gate at position 1 is set, and a suspended context whose
  \<^verbatim>\<open>resume\<close> fails.
\<close>

definition playing_App :: App where
  "playing_App = (handleStepClick SWEEP 1 initial_App)\<lparr> isPlaying := True \<rparr>"

definition failing_audio :: audio where
  "failing_audio = example_audio\<lparr> resume_succeeds := False \<rparr>"

subsection \<open>Properties of the toggle\<close>

lemma trackSteps_in_range:
  assumes "0 \<le> i" and "i < int (length xs)"
  shows "trackSteps i xs = xs[nat i := \<not> xs ! nat i]"
proof -
  from assms have n: "nat i < length xs" by simp
  have r0: "relative_index 0 (length xs) = 0"
    by (simp add: relative_index_def)
  have r1: "relative_index i (length xs) = nat i"
    using assms by (simp add: relative_index_def)
  have r2: "relative_index (i + 1) (length xs) = Suc (nat i)"
    using assms by (simp add: relative_index_def)
  have "trackSteps i xs = take (nat i) xs @ [\<not> xs ! nat i] @ drop (Suc (nat i)) xs"
    using assms
    by (simp add: trackSteps_def slice_def slice_from_def r0 r1 r2 index_def truthy_def)
  also have "\<dots> = xs[nat i := \<not> xs ! nat i]"
    using n by (simp add: upd_conv_take_nth_drop)
  finally show ?thesis .
qed

lemma length_trackSteps:
  "0 \<le> i \<Longrightarrow> i < int (length xs) \<Longrightarrow> length (trackSteps i xs) = length xs"
  by (simp add: trackSteps_in_range)

lemma trackSteps_twice:
  "0 \<le> i \<Longrightarrow> i < int (length xs) \<Longrightarrow> trackSteps i (trackSteps i xs) = xs"
  by (simp add: trackSteps_in_range list_update_same_conv)

lemma index_trackSteps_other:
  "0 \<le> i \<Longrightarrow> i < int (length xs) \<Longrightarrow> j \<noteq> i \<Longrightarrow> index (trackSteps i xs) j = index xs j"
  by (auto simp add: trackSteps_in_range index_def)

lemma index_trackSteps_same:
  "0 \<le> i \<Longrightarrow> i < int (length xs) \<Longrightarrow> index (trackSteps i xs) i = Some (\<not> xs ! nat i)"
  by (simp add: trackSteps_in_range index_def)

lemma trackSteps_in_store_value:
  assumes "arrays s a = Some xs" and "a < next_address s"
  shows "\<exists>a' s'. trackSteps_in_store i a s = Some (a', s')
           \<and> arrays s' a' = Some (trackSteps i xs)
           \<and> a' \<noteq> a
           \<and> (\<forall>b. b < next_address s \<longrightarrow> arrays s' b = arrays s b)"
  using assms
  by (simp add: trackSteps_in_store_def allocate_def trackSteps_def Let_def)

subsection \<open>Rounding\<close>

lemma two_powi_nonpos:
  assumes "k \<le> 0"
  shows "(2::real) powi k = 1 / 2 ^ nat (- k)"
proof -
  have "k = - int (nat (- k))" using assms by simp
  then have "(2::real) powi k = 2 powi (- int (nat (- k)))" by simp
  also have "\<dots> = inverse (2 powi int (nat (- k)))" by (rule power_int_minus)
  also have "\<dots> = 1 / 2 ^ nat (- k)" by (simp only: power_int_of_nat inverse_eq_divide)
  finally show ?thesis .
qed

lemma exponent_bounds:
  assumes "x \<noteq> 0"
  shows "2 powi exponent x \<le> \<bar>x\<bar>" and "\<bar>x\<bar> < 2 powi (exponent x + 1)"
proof -
  define a where "a = \<bar>x\<bar>"
  have a: "0 < a" using assms by (simp add: a_def)
  have "2 powi exponent x \<le> a \<and> a < 2 powi (exponent x + 1)"
  proof (cases "1 \<le> a")
    case True
    define n where "n = \<lfloor>a\<rfloor>"
    have n: "0 < n" using True by (simp add: n_def)
    have e: "exponent x = bitlen n - 1"
      using True by (simp add: exponent_def a_def n_def)
    have b1: "1 \<le> bitlen n"
      using n by (simp add: bitlen_alt_def)
    from bitlen_bounds [OF n] have lo: "2 ^ nat (bitlen n - 1) \<le> n" and hi: "n < 2 ^ nat (bitlen n)"
      by simp_all
    have "real_of_int (2 ^ nat (bitlen n - 1)) \<le> real_of_int n"
      using lo by (simp only: of_int_le_iff)
    also have "\<dots> \<le> a" by (simp add: n_def)
    finally have l: "2 powi (bitlen n - 1) \<le> a"
      using b1 by (simp add: power_int_def)
    have "n + 1 \<le> 2 ^ nat (bitlen n)" using hi by simp
    then have "real_of_int (n + 1) \<le> real_of_int (2 ^ nat (bitlen n))"
      by (simp only: of_int_le_iff)
    moreover have "a < real_of_int (n + 1)"
      by (simp add: n_def)
    ultimately have "a < 2 ^ nat (bitlen n)" by simp
    then have h: "a < 2 powi (bitlen n - 1 + 1)"
      using b1 by (simp add: power_int_def)
    show ?thesis using l h by (simp add: e)
  next
    case False
    define y where "y = 1 / a"
    have y: "1 < y" using False a by (simp add: y_def)
    define m where "m = \<lceil>y\<rceil> - 1"
    have m: "0 < m" using y by (simp add: m_def)
    have my: "real_of_int m < y" "y \<le> real_of_int m + 1"
      by (simp_all add: m_def) linarith+
    have e: "exponent x = - bitlen m"
      using False by (simp add: exponent_def a_def [symmetric] y_def m_def)
    have b1: "1 \<le> bitlen m"
      using m by (simp add: bitlen_alt_def)
    from bitlen_bounds [OF m] have lo: "2 ^ nat (bitlen m - 1) \<le> m" and hi: "m < 2 ^ nat (bitlen m)"
      by simp_all
    have "real_of_int (2 ^ nat (bitlen m - 1)) \<le> real_of_int m"
      using lo by (simp only: of_int_le_iff)
    then have "(2::real) ^ nat (bitlen m - 1) \<le> real_of_int m"
      by simp
    then have ylo: "2 ^ nat (bitlen m - 1) < y"
      using my(1) by (rule order.strict_trans1)
    have "m + 1 \<le> 2 ^ nat (bitlen m)" using hi by simp
    then have "real_of_int (m + 1) \<le> real_of_int (2 ^ nat (bitlen m))"
      by (simp only: of_int_le_iff)
    then have yhi: "y \<le> 2 ^ nat (bitlen m)"
      using my(2) by simp
    have ay: "a = 1 / y" using a by (simp add: y_def)
    have "1 / 2 ^ nat (bitlen m) \<le> a"
      unfolding ay using yhi y by (simp add: frac_le)
    then have l: "2 powi (- bitlen m) \<le> a"
      using b1 by (simp add: two_powi_nonpos)
    have "a < 1 / 2 ^ nat (bitlen m - 1)"
      unfolding ay using ylo by (simp add: frac_less2)
    moreover have "2 powi (- bitlen m + 1) = (1::real) / 2 ^ nat (bitlen m - 1)"
      using b1 two_powi_nonpos [of "- bitlen m + 1"] by simp
    ultimately have h: "a < 2 powi (- bitlen m + 1)" by simp
    show ?thesis using l h by (simp add: e)
  qed
  then show "2 powi exponent x \<le> \<bar>x\<bar>" and "\<bar>x\<bar> < 2 powi (exponent x + 1)"
    by (simp_all add: a_def)
qed

lemma exponent_less:
  assumes "x \<noteq> 0" and "\<bar>x\<bar> < 2 powi k"
  shows "exponent x < k"
proof (rule ccontr)
  assume "\<not> exponent x < k"
  then have "k \<le> exponent x" by simp
  then have "(2::real) powi k \<le> 2 powi exponent x"
    by (intro power_int_increasing) simp_all
  with exponent_bounds(1) [OF assms(1)] assms(2) show False by simp
qed

lemma round_half_even_le: "x \<le> of_int n \<Longrightarrow> round_half_even x \<le> n"
  unfolding round_half_even_def Let_def by (auto split: if_splits) linarith+

lemma round_half_even_ge: "of_int n \<le> x \<Longrightarrow> n \<le> round_half_even x"
  unfolding round_half_even_def Let_def by (auto split: if_splits) linarith+

lemma round_binary_bounds:
  assumes "0 < p" and "emin < int p" and "\<bar>x\<bar> < 2 ^ p"
  shows "x \<le> of_int n \<Longrightarrow> round_binary p emin x \<le> of_int n"
    and "of_int n \<le> x \<Longrightarrow> of_int n \<le> round_binary p emin x"
proof -
  define s where "s = max (exponent x) emin - int p + 1"
  define u :: real where "u = 2 powi s"
  have u: "0 < u" by (simp add: u_def)
  have s: "s \<le> 0" if "x \<noteq> 0"
  proof -
    have "\<bar>x\<bar> < 2 powi int p" using assms(3) by simp
    from exponent_less [OF that this] assms(2) show ?thesis by (simp add: s_def)
  qed
  have inv: "1 / u = of_int (2 ^ nat (- s))" if "x \<noteq> 0"
    using two_powi_nonpos [OF s [OF that]] by (simp add: u_def)
  have r: "round_binary p emin x = of_int (round_half_even (x / u)) * u" if "x \<noteq> 0"
    using that by (simp add: round_binary_def u_def s_def Let_def)
  show "round_binary p emin x \<le> of_int n" if le: "x \<le> of_int n"
  proof (cases "x = 0")
    case True
    with le show ?thesis by (simp add: round_binary_def)
  next
    case False
    have "x / u \<le> of_int n * (1 / u)" using le u by (simp add: divide_right_mono)
    also have "\<dots> = of_int (n * 2 ^ nat (- s))" by (simp add: inv [OF False])
    finally have "round_half_even (x / u) \<le> n * 2 ^ nat (- s)" by (rule round_half_even_le)
    then have "real_of_int (round_half_even (x / u)) \<le> real_of_int (n * 2 ^ nat (- s))"
      by (simp only: of_int_le_iff)
    then have "of_int (round_half_even (x / u)) * u \<le> real_of_int (n * 2 ^ nat (- s)) * u"
      using u by (simp only: mult_le_cancel_right_pos)
    also have "\<dots> = of_int n * (of_int (2 ^ nat (- s)) * u)" by simp
    also have "of_int (2 ^ nat (- s)) * u = 1"
      using inv [OF False, symmetric] u by simp
    finally show ?thesis by (simp add: r [OF False])
  qed
  show "of_int n \<le> round_binary p emin x" if ge: "of_int n \<le> x"
  proof (cases "x = 0")
    case True
    with ge show ?thesis by (simp add: round_binary_def)
  next
    case False
    have "of_int n * (1 / u) \<le> x / u" using ge u by (simp add: divide_right_mono)
    moreover have "of_int n * (1 / u) = of_int (n * 2 ^ nat (- s))" by (simp add: inv [OF False])
    ultimately have "of_int (n * 2 ^ nat (- s)) \<le> x / u" by simp
    then have "n * 2 ^ nat (- s) \<le> round_half_even (x / u)" by (rule round_half_even_ge)
    then have "real_of_int (n * 2 ^ nat (- s)) \<le> real_of_int (round_half_even (x / u))"
      by (simp only: of_int_le_iff)
    then have le: "real_of_int (n * 2 ^ nat (- s)) * u \<le> of_int (round_half_even (x / u)) * u"
      using u by (simp only: mult_le_cancel_right_pos)
    have one: "of_int (2 ^ nat (- s)) * u = 1"
      using inv [OF False, symmetric] u by simp
    have "of_int n = of_int n * (of_int (2 ^ nat (- s)) * u)"
      by (simp only: one mult_1_right)
    also have "\<dots> = real_of_int (n * 2 ^ nat (- s)) * u" by simp
    also note le
    finally show ?thesis by (simp add: r [OF False])
  qed
qed

lemma to_double_bounds:
  assumes "\<bar>x\<bar> < 2 ^ 53"
  shows "x \<le> of_int n \<Longrightarrow> to_double x \<le> of_int n"
    and "of_int n \<le> x \<Longrightarrow> of_int n \<le> to_double x"
  unfolding to_double_def using assms by (rule round_binary_bounds [rotated 2]; simp)+

lemma to_float32_bounds:
  assumes "\<bar>x\<bar> < 2 ^ 24"
  shows "x \<le> of_int n \<Longrightarrow> to_float32 x \<le> of_int n"
    and "of_int n \<le> x \<Longrightarrow> of_int n \<le> to_float32 x"
  unfolding to_float32_def using assms by (rule round_binary_bounds [rotated 2]; simp)+

lemma sample_in_range:
  assumes "0 \<le> r" and "r < 1"
  shows "- 1 \<le> to_float32 (minus_double (times_double r 2) 1)"
    and "to_float32 (minus_double (times_double r 2) 1) \<le> 1"
proof -
  define y where "y = times_double r 2"
  define z where "z = minus_double y 1"
  have small: "\<bar>r * 2\<bar> < 2 ^ 53"
    using assms by simp
  have "of_int 0 \<le> to_double (r * 2)"
    using assms by (intro to_double_bounds(2) [OF small]) simp
  moreover have "to_double (r * 2) \<le> of_int 2"
    using assms by (intro to_double_bounds(1) [OF small]) simp
  ultimately have y: "0 \<le> y" "y \<le> 2"
    by (simp_all add: y_def times_double_def)
  then have ysmall: "\<bar>y - 1\<bar> < 2 ^ 53"
    by simp
  have "of_int (- 1) \<le> to_double (y - 1)"
    using y by (intro to_double_bounds(2) [OF ysmall]) simp
  moreover have "to_double (y - 1) \<le> of_int 1"
    using y by (intro to_double_bounds(1) [OF ysmall]) simp
  ultimately have z: "- 1 \<le> z" "z \<le> 1"
    by (simp_all add: z_def minus_double_def)
  then have zsmall: "\<bar>z\<bar> < 2 ^ 24"
    by simp
  have "of_int (- 1) \<le> to_float32 z"
    using z by (intro to_float32_bounds(2) [OF zsmall]) simp
  moreover have "to_float32 z \<le> of_int 1"
    using z by (intro to_float32_bounds(1) [OF zsmall]) simp
  ultimately show "- 1 \<le> to_float32 (minus_double (times_double r 2) 1)"
    and "to_float32 (minus_double (times_double r 2) 1) \<le> 1"
    by (simp_all add: z_def y_def)
qed

lemma to_double_0: "to_double 0 = 0"
  by (simp add: to_double_def round_binary_def)

subsection \<open>The calls made by the synthesizers\<close>

lemmas action_defs =
  succeed_def throw_def andThen_def read_def perform_def invoke_def at_time_def create_def
  createOscillator_def createGain_def createBufferSource_def createBiquadFilter_def
  setPeriodicWave_def set_type_def set_buffer_def set_value_def cancelScheduledValues_def
  setValueAtTime_def linearRampToValueAtTime_def connect_def start_def stop_def

lemma playSweep_calls:
  assumes "0 \<le> time" and "0 \<le> time + attack (sweepSequence app)"
    and "release (sweepSequence app) \<le> time + 2"
  shows "playSweep app time w =
    (Inr (),
     w\<lparr> fresh := Suc (Suc (fresh w)),
        calls := calls w @
          [Create Oscillator (fresh w), SetPeriodicWave (fresh w),
           SetValue (Frequency (fresh w)) 380, Create Gain (Suc (fresh w)),
           CancelScheduledValues (GainValue (Suc (fresh w))) time,
           SetValueAtTime (GainValue (Suc (fresh w))) 0 time,
           LinearRampToValueAtTime (GainValue (Suc (fresh w))) 1 (time + attack (sweepSequence app)),
           LinearRampToValueAtTime (GainValue (Suc (fresh w))) 0
             (time + 2 - release (sweepSequence app))] @
          (if selectedTrack app = SWEEP
           then [Connect (Node (fresh w)) (Node (Suc (fresh w))),
                 Connect (Node (Suc (fresh w))) Analyzer, Connect Analyzer Destination]
           else [Connect (Node (fresh w)) (Node (Suc (fresh w))),
                 Connect (Node (Suc (fresh w))) Destination]) @
          [Start (fresh w) time, Stop (fresh w) (time + 2)] \<rparr>)"
  using assms by (simp add: playSweep_def action_defs)

lemma playPulse_calls:
  assumes "0 \<le> time"
  shows "playPulse app time w =
    (Inr (),
     w\<lparr> fresh := Suc (Suc (Suc (fresh w))),
        calls := calls w @
          [Create Oscillator (fresh w), SetType (fresh w) Sine,
           SetValue (Frequency (fresh w)) (frequency (pulseSequence app)),
           Create Gain (Suc (fresh w)), SetValue (GainValue (Suc (fresh w))) 1,
           Create Oscillator (Suc (Suc (fresh w))), SetType (Suc (Suc (fresh w))) Square,
           SetValue (Frequency (Suc (Suc (fresh w)))) (lfo (pulseSequence app)),
           Connect (Node (Suc (Suc (fresh w)))) (Param (GainValue (Suc (fresh w))))] @
          (if selectedTrack app = PULSE
           then [Connect (Node (fresh w)) (Node (Suc (fresh w))),
                 Connect (Node (Suc (fresh w))) Analyzer, Connect Analyzer Destination]
           else [Connect (Node (fresh w)) (Node (Suc (fresh w))),
                 Connect (Node (Suc (fresh w))) Destination]) @
          [Start (Suc (Suc (fresh w))) 0, Start (fresh w) time, Stop (fresh w) (time + 1)] \<rparr>)"
  using assms by (simp add: playPulse_def action_defs)

declare fill.simps [simp del]

lemma store_sample_frame:
  "calls (store_sample d i v w) = calls w"
  "fresh (store_sample d i v w) = fresh w"
  "state (store_sample d i v w) = state w"
  "currentTime (store_sample d i v w) = currentTime w"
  "sampleRate (store_sample d i v w) = sampleRate w"
  "resume_succeeds (store_sample d i v w) = resume_succeeds w"
  "random_values (store_sample d i v w) = random_values w"
  "random_drawn (store_sample d i v w) = random_drawn w"
  by (simp_all add: store_sample_def split: option.split)

lemma fill_frame:
  "calls (fill b d i w) = calls w \<and> fresh (fill b d i w) = fresh w
   \<and> state (fill b d i w) = state w \<and> currentTime (fill b d i w) = currentTime w
   \<and> sampleRate (fill b d i w) = sampleRate w
   \<and> resume_succeeds (fill b d i w) = resume_succeeds w
   \<and> random_values (fill b d i w) = random_values w"
proof (induction b d i w rule: fill.induct)
  case (1 bufferSize data i w)
  show ?case
  proof (cases "real i < bufferSize")
    case True
    with 1 show ?thesis
      by (subst (1 2 3 4 5 6 7) fill.simps) (simp add: Math_random_def store_sample_frame)
  next
    case False
    then show ?thesis by (simp add: fill.simps)
  qed
qed

lemma store_sample_channelData:
  assumes "channelData w d = Some xs"
  shows "channelData (store_sample d i v w) d =
    Some (if i < length xs then xs[i := to_float32 v] else xs)"
  using assms by (simp add: store_sample_def)

lemma fill_channelData:
  assumes "channelData w d = Some xs"
    and "\<forall>x\<in>set xs. - 1 \<le> x \<and> x \<le> 1"
    and "\<forall>n. 0 \<le> random_values w n \<and> random_values w n < 1"
  shows "\<exists>ys. channelData (fill b d i w) d = Some ys \<and> length ys = length xs
           \<and> (\<forall>y\<in>set ys. - 1 \<le> y \<and> y \<le> 1)"
  using assms
proof (induction b d i w arbitrary: xs rule: fill.induct)
  case (1 bufferSize data i w)
  show ?case
  proof (cases "real i < bufferSize")
    case False
    with 1 show ?thesis by (simp add: fill.simps)
  next
    case True
    define r where "r = random_values w (random_drawn w)"
    define w' where "w' = w\<lparr> random_drawn := Suc (random_drawn w) \<rparr>"
    define v where "v = to_float32 (minus_double (times_double r 2) 1)"
    define w'' where "w'' = store_sample data i (minus_double (times_double r 2) 1) w'"
    define zs where "zs = (if i < length xs then xs[i := v] else xs)"
    have mr: "Math_random w = (r, w')"
      by (simp add: Math_random_def r_def w'_def)
    have "0 \<le> r" "r < 1"
      using "1.prems"(3) by (simp_all add: r_def)
    then have r: "- 1 \<le> v" "v \<le> 1"
      unfolding v_def by (rule sample_in_range)+
    have cd: "channelData w'' data = Some zs"
      unfolding w''_def zs_def v_def
      by (rule store_sample_channelData) (simp add: w'_def "1.prems"(1))
    have zs: "\<forall>x\<in>set zs. - 1 \<le> x \<and> x \<le> 1"
    proof
      fix x assume "x \<in> set zs"
      then have "x \<in> set xs \<or> x = v"
        using set_update_subset_insert [of xs i v]
        by (auto simp add: zs_def split: if_splits)
      then show "- 1 \<le> x \<and> x \<le> 1"
        using "1.prems"(2) r by auto
    qed
    have rv: "\<forall>n. 0 \<le> random_values w'' n \<and> random_values w'' n < 1"
      using "1.prems"(3) by (simp add: w''_def w'_def store_sample_frame)
    from "1.IH" [OF True mr [symmetric] refl cd [unfolded w''_def] zs rv [unfolded w''_def]]
    obtain ys where "channelData (fill bufferSize data (Suc i) w'') data = Some ys"
      "length ys = length zs" "\<forall>y\<in>set ys. - 1 \<le> y \<and> y \<le> 1"
      unfolding w''_def by blast
    moreover have "fill bufferSize data i w = fill bufferSize data (Suc i) w''"
      using True by (subst fill.simps) (simp add: mr w''_def)
    moreover have "length zs = length xs"
      by (simp add: zs_def)
    ultimately show ?thesis by simp
  qed
qed


lemma to_unsigned_long_floor:
  "0 \<le> x \<Longrightarrow> x < 2 ^ 32 \<Longrightarrow> to_unsigned_long x = nat \<lfloor>x\<rfloor>"
proof -
  assume a: "0 \<le> x" "x < 2 ^ 32"
  have "\<lfloor>x\<rfloor> < 2 ^ 32" using a(2) by (simp add: floor_less_iff)
  moreover have "0 \<le> \<lfloor>x\<rfloor>" using a(1) by simp
  ultimately have "\<lfloor>x\<rfloor> mod 2 ^ 32 = \<lfloor>x\<rfloor>" by simp
  then show ?thesis using a(1) by (simp add: to_unsigned_long_def)
qed

lemma playNoise_throws:
  assumes "to_unsigned_long (times_double (sampleRate w) (duration (noiseSequence app))) = 0"
  shows "playNoise app time w = (Inl NotSupportedError, w)"
  using assms by (simp add: playNoise_def createBuffer_def andThen_def read_def Let_def)

lemma playNoise_calls:
  assumes "to_unsigned_long (times_double (sampleRate w) (duration (noiseSequence app))) \<noteq> 0"
    and "0 \<le> time"
  shows "playNoise app time w =
    (Inr (),
     (fill (times_double (sampleRate w) (duration (noiseSequence app))) (fresh w, 0) 0
        (noise_buffer_created app w))
     \<lparr> fresh := Suc (Suc (Suc (fresh w))),
        calls := calls w @
          [CreateBuffer (fresh w) 1
             (to_unsigned_long (times_double (sampleRate w) (duration (noiseSequence app)))) (sampleRate w),
           Create BufferSource (Suc (fresh w)), SetBuffer (Suc (fresh w)) (fresh w),
           Create BiquadFilter (Suc (Suc (fresh w))), SetType (Suc (Suc (fresh w))) Bandpass,
           SetValue (Frequency (Suc (Suc (fresh w)))) (band (noiseSequence app))] @
          (if selectedTrack app = NOISE
           then [Connect (Node (Suc (fresh w))) (Node (Suc (Suc (fresh w)))),
                 Connect (Node (Suc (Suc (fresh w)))) Analyzer, Connect Analyzer Destination]
           else [Connect (Node (Suc (fresh w))) (Node (Suc (Suc (fresh w)))),
                 Connect (Node (Suc (Suc (fresh w)))) Destination]) @
          [Start (Suc (fresh w)) time] \<rparr>)"
  using assms
  by (simp add: playNoise_def createBuffer_def getChannelData_def action_defs fill_frame Let_def
      noise_buffer_created_def)


lemma oblivious_andThen:
  assumes "oblivious m" and "\<And>x. oblivious (f x)"
  shows "oblivious (andThen m f)"
  unfolding oblivious_def
proof (intro allI)
  fix c s b w
  obtain r w' where mw: "m w = (r, w')" by (cases "m w")
  then have mh: "m (with_history c s b w) = (r, with_history c s b w')"
    using assms(1) by (simp add: oblivious_def)
  show "andThen m f (with_history c s b w) =
        (case andThen m f w of (r, w') \<Rightarrow> (r, with_history c s b w'))"
  proof (cases r)
    case (Inl e)
    then show ?thesis by (simp add: andThen_def mw mh)
  next
    case (Inr x)
    then show ?thesis
      using assms(2) [of x] by (simp add: andThen_def mw mh oblivious_def)
  qed
qed

lemma oblivious_if:
  "oblivious m \<Longrightarrow> oblivious n \<Longrightarrow> oblivious (if b then m else n)"
  by simp

lemma oblivious_invoke: "oblivious (invoke c)"
  by (simp add: oblivious_def invoke_def with_history_def)

lemma oblivious_throw: "oblivious (throw e)"
  by (simp add: oblivious_def throw_def)

lemma oblivious_succeed: "oblivious succeed"
  by (simp add: oblivious_def succeed_def)

lemma oblivious_at_time: "oblivious (at_time t c)"
  by (simp add: at_time_def oblivious_invoke oblivious_throw)

lemma oblivious_create: "oblivious (create k)"
  by (simp add: oblivious_def create_def with_history_def)

lemma oblivious_connect: "oblivious (connect a b)"
  unfolding connect_def
  by (rule oblivious_andThen, rule oblivious_invoke) (simp add: oblivious_def)

lemma oblivious_createBuffer: "oblivious (createBuffer n len hz)"
  by (simp add: oblivious_def createBuffer_def with_history_def Let_def split_def cong: if_cong)

lemma oblivious_getChannelData: "oblivious (getChannelData b c)"
  by (simp add: oblivious_def getChannelData_def with_history_def split: option.split)

lemma store_sample_with_history:
  "store_sample d i v (with_history c s b w) = with_history c s b (store_sample d i v w)"
  by (simp add: store_sample_def with_history_def split: option.split)

lemma fill_with_history:
  "fill bs d i (with_history c s b w) = with_history c s b (fill bs d i w)"
proof (induction bs d i w rule: fill.induct)
  case (1 bufferSize data i w)
  show ?case
  proof (cases "real i < bufferSize")
    case False
    then show ?thesis by (simp add: fill.simps)
  next
    case True
    define r where "r = random_values w (random_drawn w)"
    define w' where "w' = w\<lparr> random_drawn := Suc (random_drawn w) \<rparr>"
    have mr: "Math_random w = (r, w')"
      by (simp add: Math_random_def r_def w'_def)
    define v where "v = minus_double (times_double r 2) 1"
    have mh: "Math_random (with_history c s b w) = (r, with_history c s b w')"
      by (simp add: Math_random_def r_def w'_def with_history_def)
    have "fill bufferSize data i (with_history c s b w) =
          fill bufferSize data (Suc i) (store_sample data i v (with_history c s b w'))"
      using True by (subst fill.simps) (simp add: mh v_def)
    also have "\<dots> = with_history c s b (fill bufferSize data (Suc i) (store_sample data i v w'))"
      using "1.IH" [OF True mr [symmetric] refl] by (simp add: store_sample_with_history v_def)
    also have "\<dots> = with_history c s b (fill bufferSize data i w)"
      using True by (subst (2) fill.simps) (simp add: mr v_def)
    finally show ?thesis .
  qed
qed

lemma oblivious_fill: "oblivious (perform (fill bs d i))"
  by (simp add: oblivious_def perform_def fill_with_history)

lemmas oblivious_primitives =
  oblivious_invoke oblivious_throw oblivious_succeed oblivious_at_time oblivious_create
  oblivious_connect oblivious_createBuffer oblivious_getChannelData oblivious_fill

lemma oblivious_playSweep: "oblivious (playSweep app t)"
  unfolding playSweep_def Let_def createOscillator_def createGain_def setPeriodicWave_def
    set_value_def cancelScheduledValues_def setValueAtTime_def linearRampToValueAtTime_def
    start_def stop_def
  by (intro oblivious_andThen oblivious_if oblivious_primitives)

lemma oblivious_playPulse: "oblivious (playPulse app t)"
  unfolding playPulse_def Let_def createOscillator_def createGain_def set_type_def
    set_value_def start_def stop_def
  by (intro oblivious_andThen oblivious_if oblivious_primitives)

lemma oblivious_sampleRate: "oblivious (read sampleRate)"
  by (simp add: oblivious_def read_def with_history_def)

lemma oblivious_playNoise: "oblivious (playNoise app t)"
  unfolding playNoise_def Let_def createBufferSource_def createBiquadFilter_def set_type_def
    set_value_def set_buffer_def start_def
  by (intro oblivious_andThen oblivious_if oblivious_primitives oblivious_sampleRate)

lemma oblivious_playSound: "oblivious (playSound app track t None)"
  by (simp add: playSound_def oblivious_playSweep oblivious_playPulse oblivious_playNoise
      oblivious_succeed)

lemma oblivious_fire: "oblivious (fire app n t)"
  unfolding fire_def when_gate_def
  by (intro oblivious_andThen oblivious_if oblivious_playSound oblivious_succeed)

subsection \<open>The grid position\<close>

lemma smod_nonneg: "0 \<le> a \<Longrightarrow> a smod BEATS_PER_BAR = a mod 16"
  by (simp add: smod_int_alt_def BEATS_PER_BAR_def sgn_if)

lemma tick_App:
  "fst (snd (tick app w)) =
     (if isPlaying app then app\<lparr> currentStep := (currentStep app + 1) smod BEATS_PER_BAR \<rparr>
      else app)"
  by (simp add: tick_def Let_def split: prod.split)

lemma ticks_Suc:
  "ticks env (Suc k) (app, w) =
     ticks env k (fst (snd (tick app w)), env (snd (snd (tick app w))))"
  by (simp split: prod.split)

text \<open>
  Claim C1. While the sequencer is playing, from every grid position \<open>p0\<close> in \<open>[0, 16)\<close>
  the position after \<open>k\<close> scheduler ticks is \<open>(p0 + k) mod 16\<close>, an integer in
  \<open>[0, 16)\<close>, whatever the audio context does and whether or not a tick throws.
\<close>

theorem grid_position_after_ticks:
  assumes "isPlaying app" and "0 \<le> currentStep app" and "currentStep app < 16"
  shows "currentStep (fst (ticks env k (app, w))) = (currentStep app + int k) mod 16
       \<and> 0 \<le> currentStep (fst (ticks env k (app, w)))
       \<and> currentStep (fst (ticks env k (app, w))) < 16"
  using assms
proof (induction k arbitrary: app w)
  case 0
  then show ?case by simp
next
  case (Suc k)
  define app' where "app' = fst (snd (tick app w))"
  define w' where "w' = env (snd (snd (tick app w)))"
  have step: "currentStep app' = (currentStep app + 1) mod 16"
    using Suc.prems by (simp add: app'_def tick_App smod_nonneg)
  have playing: "isPlaying app'"
    using Suc.prems by (simp add: app'_def tick_App)
  have range: "0 \<le> currentStep app'" "currentStep app' < 16"
    by (simp_all add: step)
  have "ticks env (Suc k) (app, w) = ticks env k (app', w')"
    by (simp only: ticks_Suc app'_def w'_def)
  moreover have "(currentStep app' + int k) mod 16 = (currentStep app + int (Suc k)) mod 16"
  proof -
    have "((currentStep app + 1) mod 16 + int k) mod 16 = (currentStep app + 1 + int k) mod 16"
      by (rule mod_add_left_eq)
    then show ?thesis by (simp add: step add.assoc)
  qed
  ultimately show ?case
    using Suc.IH [OF playing range] by simp
qed

theorem grid_position_after_ticks_witness:
  "isPlaying (initial_App\<lparr> isPlaying := True \<rparr>)
   \<and> currentStep (initial_App\<lparr> isPlaying := True \<rparr>) = 0
   \<and> currentStep (fst (ticks (\<lambda>w. w) 20 (initial_App\<lparr> isPlaying := True \<rparr>, example_audio))) = 4"
proof -
  have p: "isPlaying (initial_App\<lparr> isPlaying := True \<rparr>)"
    by simp
  have z: "currentStep (initial_App\<lparr> isPlaying := True \<rparr>) = 0"
    by (simp add: initial_App_def)
  have "currentStep (fst (ticks (\<lambda>w. w) 20 (initial_App\<lparr> isPlaying := True \<rparr>, example_audio)))
        = (currentStep (initial_App\<lparr> isPlaying := True \<rparr>) + int 20) mod 16"
    using grid_position_after_ticks [of "initial_App\<lparr> isPlaying := True \<rparr>" "\<lambda>w. w" 20 example_audio]
    by (simp only: p z)
  also have "\<dots> = 4"
    by (simp only: z) simp
  finally show ?thesis
    using p z by (intro conjI)
qed

subsection \<open>The Sweep envelope\<close>

text \<open>
  Claim C2. A Sweep firing at time \<open>t\<close> with attack \<open>a\<close> and release \<open>r\<close> creates an
  oscillator and a gain node, schedules on the gain the value 0 at \<open>t\<close>, a linear ramp
  reaching 1 at \<open>t + a\<close> and a linear ramp reaching 0 at \<open>t + 2 - r\<close>, starts the
  oscillator at \<open>t\<close> and stops it at \<open>t + 2\<close>, whatever the envelope and the selected
  track. The hypotheses say that the three times are not negative, as they are for the
  audio clock and for attack and release in \<open>[0, 1]\<close>; the Web Audio calls throw
  otherwise. The witness is the case \<open>a = 0.2\<close>, \<open>r = 0.5\<close>, \<open>t = 0\<close>: the gain reaches
  1 at 0.2 and 0 at 1.5, and the note stops at 2.
\<close>

theorem sweep_schedule:
  assumes "0 \<le> t" and "0 \<le> t + attack (sweepSequence app)"
    and "release (sweepSequence app) \<le> t + 2"
  shows "\<exists>w'. playSweep app t w = (Inr (), w')
     \<and> Create Oscillator (fresh w) \<in> set (issued w w')
     \<and> Create Gain (Suc (fresh w)) \<in> set (issued w w')
     \<and> Connect (Node (fresh w)) (Node (Suc (fresh w))) \<in> set (issued w w')
     \<and> automation (GainValue (Suc (fresh w))) (issued w w') =
           [CancelScheduledValues (GainValue (Suc (fresh w))) t,
            SetValueAtTime (GainValue (Suc (fresh w))) 0 t,
            LinearRampToValueAtTime (GainValue (Suc (fresh w))) 1 (t + attack (sweepSequence app)),
            LinearRampToValueAtTime (GainValue (Suc (fresh w))) 0
              (t + 2 - release (sweepSequence app))]
     \<and> start_times (fresh w) (issued w w') = [t]
     \<and> stop_times (fresh w) (issued w w') = [t + 2]"
  using assms by (simp add: playSweep_calls issued_def)

theorem sweep_schedule_witness:
  "\<exists>w'. playSweep initial_App 0 example_audio = (Inr (), w')
     \<and> automation (GainValue 1) (issued example_audio w') =
           [CancelScheduledValues (GainValue 1) 0,
            SetValueAtTime (GainValue 1) 0 0,
            LinearRampToValueAtTime (GainValue 1) 1 0.2,
            LinearRampToValueAtTime (GainValue 1) 0 1.5]
     \<and> start_times 0 (issued example_audio w') = [0]
     \<and> stop_times 0 (issued example_audio w') = [2]"
proof -
  have a: "attack (sweepSequence initial_App) = 0.2" "release (sweepSequence initial_App) = 0.5"
    by (simp_all add: initial_App_def)
  have f: "fresh example_audio = 0"
    by (simp add: example_audio_def)
  have "(0::real) \<le> 0" "(0::real) \<le> 0 + attack (sweepSequence initial_App)"
    "release (sweepSequence initial_App) \<le> 0 + 2"
    by (simp_all add: a)
  from sweep_schedule [OF this, of example_audio]
  show ?thesis
    by (simp add: a f) blast
qed

subsection \<open>Toggling twice, and what a toggle leaves alone\<close>

lemma toggleSequenceStep_steps:
  "steps (toggleSequenceStep i s) = trackSteps i (steps s)"
  by (simp add: toggleSequenceStep_def)

lemma toggleSequenceStep_more:
  "Sequence.more (toggleSequenceStep i s) = Sequence.more s"
  by (simp add: toggleSequenceStep_def)

text \<open>
  Claim C3. For a pattern of 16 gates and an index \<open>i\<close> in \<open>[0, 16)\<close>, toggling gate
  \<open>i\<close> twice gives back the sequence, one toggle flips gate \<open>i\<close> and changes no gate
  \<open>j \<noteq> i\<close>, and the toggled pattern is a new array: in every store that holds the old
  pattern at an address \<open>a\<close>, the toggle returns another address and leaves the array at
  \<open>a\<close> as it was.
\<close>

theorem toggle_twice_and_others:
  assumes "length (steps s) = 16" and "0 \<le> i" and "i < 16"
  shows "toggleSequenceStep i (toggleSequenceStep i s) = s
     \<and> length (steps (toggleSequenceStep i s)) = 16
     \<and> index (steps (toggleSequenceStep i s)) i = Some (\<not> steps s ! nat i)
     \<and> (\<forall>j. j \<noteq> i \<longrightarrow> index (steps (toggleSequenceStep i s)) j = index (steps s) j)
     \<and> (\<forall>h a. arrays h a = Some (steps s) \<and> a < next_address h \<longrightarrow>
           (\<exists>a' h'. trackSteps_in_store i a h = Some (a', h')
              \<and> a' \<noteq> a
              \<and> arrays h' a' = Some (steps (toggleSequenceStep i s))
              \<and> arrays h' a = Some (steps s)))"
proof -
  have len: "i < int (length (steps s))"
    using assms by simp
  have twice: "toggleSequenceStep i (toggleSequenceStep i s) = s"
    using trackSteps_twice [OF assms(2) len] by (simp add: toggleSequenceStep_def)
  have store: "\<exists>a' h'. trackSteps_in_store i a h = Some (a', h')
              \<and> a' \<noteq> a
              \<and> arrays h' a' = Some (steps (toggleSequenceStep i s))
              \<and> arrays h' a = Some (steps s)"
    if "arrays h a = Some (steps s)" and "a < next_address h" for h a
    using trackSteps_in_store_value [OF that, of i] that
    by (auto simp add: toggleSequenceStep_steps)
  show ?thesis
    using assms(1) length_trackSteps [OF assms(2) len] index_trackSteps_same [OF assms(2) len]
      index_trackSteps_other [OF assms(2) len] twice store
    by (simp add: toggleSequenceStep_steps)
qed

theorem toggle_twice_and_others_witness:
  "length (steps (sweepSequence initial_App)) = 16
   \<and> toggleSequenceStep 3 (toggleSequenceStep 3 (sweepSequence initial_App)) = sweepSequence initial_App
   \<and> index (steps (toggleSequenceStep 3 (sweepSequence initial_App))) 3 = Some True
   \<and> index (steps (toggleSequenceStep 3 (sweepSequence initial_App))) 5 = Some False
   \<and> (\<exists>a' h'. trackSteps_in_store 3 0
            \<lparr> arrays = [0 \<mapsto> steps (sweepSequence initial_App)], next_address = 1 \<rparr> = Some (a', h')
          \<and> a' \<noteq> 0
          \<and> arrays h' a' = Some (steps (toggleSequenceStep 3 (sweepSequence initial_App)))
          \<and> arrays h' 0 = Some (steps (sweepSequence initial_App)))"
proof -
  define s where "s = sweepSequence initial_App"
  define h where "h = \<lparr> arrays = [0 \<mapsto> steps s], next_address = 1 \<rparr>"
  have st: "steps s = new_steps"
    by (simp add: s_def initial_App_def)
  have len: "length (steps s) = 16"
    by (simp add: st new_steps_def BEATS_PER_BAR_def)
  have old: "index (steps s) 5 = Some False" "steps s ! nat 3 = False"
    by (simp_all add: st new_steps_def BEATS_PER_BAR_def index_def)
  have h: "arrays h 0 = Some (steps s) \<and> 0 < next_address h"
    by (simp add: h_def)
  have i: "(0::int) \<le> 3" "(3::int) < 16"
    by simp_all
  note t = toggle_twice_and_others [OF len i]
  have "toggleSequenceStep 3 (toggleSequenceStep 3 s) = s"
    using t by simp
  moreover have "index (steps (toggleSequenceStep 3 s)) 3 = Some True"
    using t old(2) by simp
  moreover have "index (steps (toggleSequenceStep 3 s)) 5 = Some False"
    using t old(1) by simp
  moreover have "\<exists>a' h'. trackSteps_in_store 3 0 h = Some (a', h')
          \<and> a' \<noteq> 0
          \<and> arrays h' a' = Some (steps (toggleSequenceStep 3 s))
          \<and> arrays h' 0 = Some (steps s)"
    using t h by blast
  ultimately show ?thesis
    using len unfolding h_def s_def by blast
qed

lemma toggleSequenceStep_update:
  "toggleSequenceStep i s = s\<lparr> steps := trackSteps i (steps s) \<rparr>"
  by (cases s) (simp add: toggleSequenceStep_def)

text \<open>
  Claim C10. Toggling a gate leaves every field of the sequence other than \<^verbatim>\<open>steps\<close>
  unchanged: the rest of the record is the same, so attack, release, frequency, lfo,
  duration, band and rate keep their values, also through \<^verbatim>\<open>handleStepClick\<close> for any
  track.
\<close>

theorem toggle_keeps_parameters:
  "Sequence.more (toggleSequenceStep i s) = Sequence.more s
   \<and> attack (toggleSequenceStep i sweep) = attack sweep
   \<and> release (toggleSequenceStep i sweep) = release sweep
   \<and> frequency (toggleSequenceStep i pulse) = frequency pulse
   \<and> lfo (toggleSequenceStep i pulse) = lfo pulse
   \<and> duration (toggleSequenceStep i noise) = duration noise
   \<and> band (toggleSequenceStep i noise) = band noise
   \<and> rate (toggleSequenceStep i sample) = rate sample
   \<and> attack (sweepSequence (handleStepClick track i app)) = attack (sweepSequence app)
   \<and> release (sweepSequence (handleStepClick track i app)) = release (sweepSequence app)
   \<and> frequency (pulseSequence (handleStepClick track i app)) = frequency (pulseSequence app)
   \<and> lfo (pulseSequence (handleStepClick track i app)) = lfo (pulseSequence app)
   \<and> duration (noiseSequence (handleStepClick track i app)) = duration (noiseSequence app)
   \<and> band (noiseSequence (handleStepClick track i app)) = band (noiseSequence app)
   \<and> rate (sampleSequence (handleStepClick track i app)) = rate (sampleSequence app)"
  by (simp add: toggleSequenceStep_update handleStepClick_def)

subsection \<open>The Pulse oscillators\<close>

text \<open>
  Claim C4 asks that the LFO of a Pulse firing be stopped no later than the main tone. In
  the program it is not: for frequency 880, LFO rate 30 and trigger time 0 the main tone
  (node 0) starts at 0 and stops at 1, and the LFO (node 2) is created, connected to the
  gain and started, and no call stops it. A second firing adds another LFO (node 5) that is
  never stopped, and still does not stop the first.
\<close>

theorem pulse_lfo_is_never_stopped:
  "\<exists>w'. playPulse initial_App 0 example_audio = (Inr (), w')
     \<and> Create Oscillator 0 \<in> set (calls w')
     \<and> start_times 0 (calls w') = [0]
     \<and> stop_times 0 (calls w') = [1]
     \<and> Create Oscillator 2 \<in> set (calls w')
     \<and> Connect (Node 2) (Param (GainValue 1)) \<in> set (calls w')
     \<and> start_times 2 (calls w') = [0]
     \<and> stop_times 2 (calls w') = []
     \<and> (\<exists>w''. playPulse initial_App 0.5 w' = (Inr (), w'')
           \<and> Create Oscillator 5 \<in> set (calls w'')
           \<and> start_times 5 (calls w'') = [0]
           \<and> stop_times 5 (calls w'') = []
           \<and> stop_times 2 (calls w'') = [])"
  by (simp add: playPulse_calls example_audio_def initial_App_def)

subsection \<open>The Sample track without a buffer\<close>

text \<open>
  Claim C6. Invoking the Sample track with no audio buffer is a no-op: \<^verbatim>\<open>playSound\<close>
  returns without an error and leaves the audio context as it was, so within a tick a set
  Sample gate does what an unset one does; and no tick changes the Sample sequence, so the
  gate stays set and fires again, in the same way, on the next pass of the grid.
\<close>

theorem sample_without_buffer_is_inert:
  "playSound app SAMPLE t None w = (Inr (), w)
   \<and> fire (app\<lparr> sampleSequence := s \<rparr>) n t w = fire app n t w
   \<and> sampleSequence (fst (snd (tick app w))) = sampleSequence app
   \<and> sampleSequence (fst (ticks env k (app, w))) = sampleSequence app"
proof -
  have inert: "playSound app SAMPLE t None w = (Inr (), w)"
    by (simp add: playSound_def succeed_def)
  have same: "fire (app\<lparr> sampleSequence := s \<rparr>) n t w = fire app n t w"
    by (simp add: fire_def when_gate_def playSound_def playSweep_def playPulse_def playNoise_def)
  have kept: "sampleSequence (fst (ticks env k (app, w))) = sampleSequence app"
  proof (induction k arbitrary: app w)
    case 0
    show ?case by simp
  next
    case (Suc k)
    have "sampleSequence (fst (ticks env (Suc k) (app, w))) = sampleSequence (fst (snd (tick app w)))"
      by (simp only: ticks_Suc Suc.IH)
    then show ?case
      by (simp add: tick_App)
  qed
  show ?thesis
    using inert same kept by (simp add: tick_App)
qed

subsection \<open>A Noise burst of duration zero\<close>

text \<open>
  Claim C8 asks that triggering Noise never faults for a duration in \<open>[0, 2]\<close>. For
  duration 0, the minimum of the Duration control, the buffer size is 0 and
  \<^verbatim>\<open>createBuffer\<close> throws \<^verbatim>\<open>NotSupportedError\<close>, which nothing in the program catches.
\<close>

theorem noise_of_duration_zero_throws:
  "playNoise (duration_onChange 0 initial_App) t example_audio = (Inl NotSupportedError, example_audio)"
  by (rule playNoise_throws)
    (simp add: duration_onChange_def to_unsigned_long_def times_double_def to_double_0)

subsection \<open>Writing parameters\<close>

lemma nearest_step_bounds:
  assumes "range_min c \<le> x" and "x \<le> range_max c"
  shows "range_min c \<le> nearest_step c x" and "nearest_step c x \<le> range_max c"
proof -
  define st where "st = (if 0 < range_step c then range_step c else 1)"
  have st: "0 < st" by (simp add: st_def)
  define k where "k = \<lfloor>(x - range_min c) / st + 1 / 2\<rfloor>"
  define k' where "k' = \<lfloor>(range_max c - range_min c) / st\<rfloor>"
  have "0 \<le> (x - range_min c) / st + 1 / 2"
    using assms(1) st by simp
  then have k: "0 \<le> k" by (simp add: k_def)
  have "0 \<le> (range_max c - range_min c) / st"
    using assms st by simp
  then have k'0: "0 \<le> k'" by (simp add: k'_def)
  have "of_int k' \<le> (range_max c - range_min c) / st"
    by (simp add: k'_def)
  then have k'1: "of_int k' * st \<le> range_max c - range_min c"
    using st by (simp add: pos_le_divide_eq)
  have n: "nearest_step c x =
      (if range_min c + of_int k * st \<le> range_max c then range_min c + of_int k * st
       else range_min c + of_int k' * st)"
    by (simp add: nearest_step_def Let_def st_def k_def k'_def)
  have "0 \<le> of_int k * st" "0 \<le> of_int k' * st"
    using k k'0 st by simp_all
  then show "range_min c \<le> nearest_step c x" and "nearest_step c x \<le> range_max c"
    using k'1 by (simp_all add: n)
qed

lemma sanitize_bounds:
  assumes "range_min c \<le> range_max c"
  shows "range_min c \<le> sanitize c a" and "sanitize c a \<le> range_max c"
proof -
  define x where "x = (case a of None \<Rightarrow> default_value c | Some v \<Rightarrow> v)"
  define y where "y = (if x < range_min c then range_min c
               else if range_min c \<le> range_max c \<and> range_max c < x then range_max c
               else x)"
  have y: "range_min c \<le> y" "y \<le> range_max c"
    using assms by (simp_all add: y_def)
  have "sanitize c a = nearest_step c y"
    by (simp add: sanitize_def Let_def x_def y_def)
  then show "range_min c \<le> sanitize c a" and "sanitize c a \<le> range_max c"
    using nearest_step_bounds [OF y] by simp_all
qed

lemma Number_between:
  assumes "of_int lo \<le> s" and "s \<le> of_int hi" and "\<bar>lo\<bar> < 2 ^ 53" and "\<bar>hi\<bar> < 2 ^ 53"
  shows "of_int lo \<le> Number s" and "Number s \<le> of_int hi"
proof -
  have "real_of_int \<bar>lo\<bar> < real_of_int (2 ^ 53)" "real_of_int \<bar>hi\<bar> < real_of_int (2 ^ 53)"
    using assms(3,4) by (simp_all only: of_int_less_iff)
  then have "\<bar>real_of_int lo\<bar> < 2 ^ 53" "\<bar>real_of_int hi\<bar> < 2 ^ 53"
    by simp_all
  then have small: "\<bar>s\<bar> < 2 ^ 53"
    using assms(1,2) by linarith
  show "of_int lo \<le> Number s"
    unfolding Number_def using assms(1) by (rule to_double_bounds(2) [OF small])
  show "Number s \<le> of_int hi"
    unfolding Number_def using assms(2) by (rule to_double_bounds(1) [OF small])
qed

lemma change_between:
  assumes "range_min c = of_int lo" and "range_max c = of_int hi" and "lo \<le> hi"
    and "\<bar>lo\<bar> < 2 ^ 53" and "\<bar>hi\<bar> < 2 ^ 53"
  shows "of_int lo \<le> Number (sanitize c a)" and "Number (sanitize c a) \<le> of_int hi"
proof -
  have le: "range_min c \<le> range_max c"
    using assms(1,2,3) by simp
  show "of_int lo \<le> Number (sanitize c a)" and "Number (sanitize c a) \<le> of_int hi"
    using sanitize_bounds [OF le, of a] assms(4,5)
    by (intro Number_between; simp add: assms(1,2))+
qed

lemma to_double_60: "to_double 60 = 60"
  by code_simp

lemma to_double_240: "to_double 240 = 240"
  by code_simp

text \<open>
  Claim C9. Every parameter is written through its range control. Whatever value is
  attempted, also one that is not a number, the value stored lies in the declared range of
  the parameter; a tempo attempted above 240 is stored as 240 and one attempted below 60 as
  60. The playback rate has no handler: an attempted change is refused and the rate keeps
  its value.
\<close>

theorem writes_stay_in_range:
  "60 \<le> tempo (change bpm_input bpm_onChange a app)
   \<and> tempo (change bpm_input bpm_onChange a app) \<le> 240
   \<and> 0 \<le> attack (sweepSequence (change attack_input attack_onChange a app))
   \<and> attack (sweepSequence (change attack_input attack_onChange a app)) \<le> 1
   \<and> 0 \<le> release (sweepSequence (change release_input release_onChange a app))
   \<and> release (sweepSequence (change release_input release_onChange a app)) \<le> 1
   \<and> 660 \<le> frequency (pulseSequence (change hz_input hz_onChange a app))
   \<and> frequency (pulseSequence (change hz_input hz_onChange a app)) \<le> 1320
   \<and> 20 \<le> lfo (pulseSequence (change lfo_input lfo_onChange a app))
   \<and> lfo (pulseSequence (change lfo_input lfo_onChange a app)) \<le> 40
   \<and> 0 \<le> duration (noiseSequence (change duration_input duration_onChange a app))
   \<and> duration (noiseSequence (change duration_input duration_onChange a app)) \<le> 2
   \<and> 400 \<le> band (noiseSequence (change band_input band_onChange a app))
   \<and> band (noiseSequence (change band_input band_onChange a app)) \<le> 1200
   \<and> rate (sampleSequence (rate_change a app)) = rate (sampleSequence app)
   \<and> (\<forall>x. 240 \<le> x \<longrightarrow> tempo (change bpm_input bpm_onChange (Some x) app) = 240)
   \<and> (\<forall>x. x \<le> 60 \<longrightarrow> tempo (change bpm_input bpm_onChange (Some x) app) = 60)"
proof -
  have bpm: "60 \<le> Number (sanitize bpm_input a)" "Number (sanitize bpm_input a) \<le> 240"
    using change_between [of bpm_input 60 240 a] by (simp_all add: bpm_input_def)
  have att: "0 \<le> Number (sanitize attack_input a)" "Number (sanitize attack_input a) \<le> 1"
    using change_between [of attack_input 0 1 a] by (simp_all add: attack_input_def)
  have rel: "0 \<le> Number (sanitize release_input a)" "Number (sanitize release_input a) \<le> 1"
    using change_between [of release_input 0 1 a] by (simp_all add: release_input_def)
  have hz: "660 \<le> Number (sanitize hz_input a)" "Number (sanitize hz_input a) \<le> 1320"
    using change_between [of hz_input 660 1320 a] by (simp_all add: hz_input_def)
  have lf: "20 \<le> Number (sanitize lfo_input a)" "Number (sanitize lfo_input a) \<le> 40"
    using change_between [of lfo_input 20 40 a] by (simp_all add: lfo_input_def)
  have dur: "0 \<le> Number (sanitize duration_input a)" "Number (sanitize duration_input a) \<le> 2"
    using change_between [of duration_input 0 2 a] by (simp_all add: duration_input_def)
  have bnd: "400 \<le> Number (sanitize band_input a)" "Number (sanitize band_input a) \<le> 1200"
    using change_between [of band_input 400 1200 a] by (simp_all add: band_input_def)
  have top: "Number (sanitize bpm_input (Some x)) = 240" if "240 \<le> x" for x
    using that
    by (simp add: sanitize_def nearest_step_def bpm_input_def Let_def Number_def to_double_240)
  have bot: "Number (sanitize bpm_input (Some x)) = 60" if "x \<le> 60" for x
    using that
    by (simp add: sanitize_def nearest_step_def bpm_input_def Let_def Number_def to_double_60)
  show ?thesis
    using bpm att rel hz lf dur bnd top bot
    by (simp add: change_def rate_change_def bpm_onChange_def attack_onChange_def
        release_onChange_def hz_onChange_def lfo_onChange_def duration_onChange_def
        band_onChange_def)
qed

theorem writes_stay_in_range_witness:
  "tempo (change bpm_input bpm_onChange (Some 500) initial_App) = 240
   \<and> tempo (change bpm_input bpm_onChange (Some 10) initial_App) = 60
   \<and> 60 \<le> tempo (change bpm_input bpm_onChange None initial_App)
   \<and> tempo (change bpm_input bpm_onChange None initial_App) \<le> 240"
proof -
  have a: "(240::real) \<le> 500" and b: "(10::real) \<le> 60"
    by simp_all
  from writes_stay_in_range [of None initial_App] a b show ?thesis
    by blast
qed

subsection \<open>The Noise buffer\<close>

lemma playNoise_buffer:
  assumes "to_unsigned_long (times_double (sampleRate w) (duration (noiseSequence app))) \<noteq> 0"
    and "0 \<le> t"
    and "\<forall>n. 0 \<le> random_values w n \<and> random_values w n < 1"
  shows "\<exists>w' xs. playNoise app t w = (Inr (), w')
     \<and> CreateBuffer (fresh w) 1 (length xs) (sampleRate w) \<in> set (issued w w')
     \<and> SetBuffer (Suc (fresh w)) (fresh w) \<in> set (issued w w')
     \<and> start_times (Suc (fresh w)) (issued w w') = [t]
     \<and> channelData w' (fresh w, 0) = Some xs
     \<and> length xs = to_unsigned_long (times_double (sampleRate w) (duration (noiseSequence app)))
     \<and> (\<forall>x\<in>set xs. - 1 \<le> x \<and> x \<le> 1)"
proof -
  define n where "n = to_unsigned_long (times_double (sampleRate w) (duration (noiseSequence app)))"
  define w1 where "w1 = noise_buffer_created app w"
  have cd: "channelData w1 (fresh w, 0) = Some (replicate n 0)"
    by (simp add: w1_def noise_buffer_created_def n_def)
  have zeros: "\<forall>x\<in>set (replicate n (0::real)). - 1 \<le> x \<and> x \<le> 1"
    by simp
  have rv: "\<forall>k. 0 \<le> random_values w1 k \<and> random_values w1 k < 1"
    using assms(3) by (simp add: w1_def noise_buffer_created_def)
  from fill_channelData [OF cd zeros rv]
  obtain xs where xs: "channelData
        (fill (times_double (sampleRate w) (duration (noiseSequence app))) (fresh w, 0) 0 w1)
        (fresh w, 0) = Some xs" "length xs = n" "\<forall>x\<in>set xs. - 1 \<le> x \<and> x \<le> 1"
    by (auto simp add: length_replicate)
  show ?thesis
    using xs playNoise_calls [OF assms(1,2)]
    by (simp add: issued_def w1_def [symmetric] n_def [symmetric])
qed

lemma to_double_7_10: "to_double 0.7 = 3152519739159347 / 4503599627370496"
  by code_simp

lemma product_at_7_10:
  "\<lfloor>to_double (44100 * (3152519739159347 / 4503599627370496))\<rfloor> = 30869"
  by code_simp

lemma to_double_44100: "to_double 44100 = 44100"
  by code_simp

lemma to_double_3_10: "to_double 0.3 = 5404319552844595 / 18014398509481984"
  by code_simp

lemma product_at_3_10:
  "to_double (44100 * (5404319552844595 / 18014398509481984)) = 13230"
  by code_simp

text \<open>
  Claim C7 asks that the buffer of a Noise firing have exactly \<open>sampleRate \<times> d\<close> samples.
  The program computes the product in double precision and the length of the buffer is
  that number truncated to an integer: with the Duration control at 0.7, that is with the
  duration \<^verbatim>\<open>Number("0.7")\<close>, and a sample rate of 44100 the product is
  30869.999999999996 and the buffer has 30869 samples, not 30870.
\<close>

theorem noise_buffer_is_truncated:
  "\<exists>w' xs. playNoise (duration_onChange (to_double 0.7) initial_App) 0 example_audio = (Inr (), w')
     \<and> channelData w' (0, 0) = Some xs
     \<and> length xs = 30869
     \<and> real (length xs) \<noteq>
         sampleRate example_audio * duration (noiseSequence (duration_onChange (to_double 0.7) initial_App))
     \<and> real (length xs) \<noteq> 44100 * 0.7"
proof -
  define app where "app = duration_onChange (to_double 0.7) initial_App"
  have d: "duration (noiseSequence app) = 3152519739159347 / 4503599627370496"
    by (simp add: app_def duration_onChange_def to_double_7_10)
  have f: "fresh example_audio = 0" "sampleRate example_audio = 44100"
    by (simp_all add: example_audio_def)
  have p: "times_double (sampleRate example_audio) (duration (noiseSequence app)) =
      to_double (44100 * (3152519739159347 / 4503599627370496))"
    by (simp only: times_double_def d f)
  have pos: "0 \<le> to_double (44100 * (3152519739159347 / 4503599627370496))"
    using product_at_7_10 by linarith
  have small: "\<lfloor>to_double (44100 * (3152519739159347 / 4503599627370496))\<rfloor> mod 2 ^ 32 = 30869"
    by (simp only: product_at_7_10) simp
  have n: "to_unsigned_long (times_double (sampleRate example_audio) (duration (noiseSequence app))) = 30869"
  proof -
    have "to_unsigned_long (to_double (44100 * (3152519739159347 / 4503599627370496))) =
        nat (\<lfloor>to_double (44100 * (3152519739159347 / 4503599627370496))\<rfloor> mod 2 ^ 32)"
      using pos by (simp add: to_unsigned_long_def)
    also have "\<dots> = 30869"
      using small by simp
    finally show ?thesis
      by (simp only: p)
  qed
  have nz: "to_unsigned_long (times_double (sampleRate example_audio) (duration (noiseSequence app))) \<noteq> 0"
    by (simp add: n)
  have rv: "\<forall>n. 0 \<le> random_values example_audio n \<and> random_values example_audio n < 1"
    by (simp add: example_audio_def)
  from playNoise_buffer [OF nz order_refl rv, unfolded n, unfolded f]
  obtain w' xs where r: "playNoise app 0 example_audio = (Inr (), w')"
    "channelData w' (0, 0) = Some xs" "length xs = 30869"
    by blast
  have "real (length xs) \<noteq> sampleRate example_audio * duration (noiseSequence app)"
    by (simp add: r(3) d f)
  moreover have "real (length xs) \<noteq> 44100 * 0.7"
    by (simp add: r(3))
  ultimately show ?thesis
    using r unfolding app_def by blast
qed

text \<open>
  Claim C7 as amended. When the double-precision product \<open>sampleRate \<times> d\<close> is at least 1
  (and below \<open>2\<^sup>3\<^sup>2\<close>), a Noise firing at a time \<open>t \<ge> 0\<close> creates a mono buffer whose
  length is exactly that product truncated to an integer, and every sample lies in
  \<open>[-1, 1]\<close>, given that \<^verbatim>\<open>Math.random()\<close> returns values in \<open>[0, 1)\<close>. The witness is
  \<open>d = 1\<close> at a sample rate of 44100: exactly 44100 samples; and, at the same rate, the
  duration \<^verbatim>\<open>Number("0.3")\<close>, whose product rounds up to 13230: exactly 13230 samples.
\<close>

theorem noise_buffer_length_and_range:
  assumes "1 \<le> times_double (sampleRate w) (duration (noiseSequence app))"
    and "times_double (sampleRate w) (duration (noiseSequence app)) < 2 ^ 32"
    and "0 \<le> t"
    and "\<forall>n. 0 \<le> random_values w n \<and> random_values w n < 1"
  shows "\<exists>w' xs. playNoise app t w = (Inr (), w')
     \<and> CreateBuffer (fresh w) 1 (length xs) (sampleRate w) \<in> set (issued w w')
     \<and> SetBuffer (Suc (fresh w)) (fresh w) \<in> set (issued w w')
     \<and> channelData w' (fresh w, 0) = Some xs
     \<and> length xs = nat \<lfloor>times_double (sampleRate w) (duration (noiseSequence app))\<rfloor>
     \<and> (\<forall>x\<in>set xs. - 1 \<le> x \<and> x \<le> 1)"
proof -
  define p where "p = times_double (sampleRate w) (duration (noiseSequence app))"
  have n: "to_unsigned_long p = nat \<lfloor>p\<rfloor>"
    using assms(1,2) by (intro to_unsigned_long_floor) (simp_all add: p_def)
  have "1 \<le> \<lfloor>p\<rfloor>"
    using assms(1) by (simp add: p_def le_floor_iff)
  then have nz: "to_unsigned_long p \<noteq> 0"
    by (simp add: n)
  from playNoise_buffer [OF nz [unfolded p_def] assms(3,4)]
  show ?thesis
    unfolding p_def [symmetric] n by auto
qed

theorem noise_buffer_length_and_range_witness:
  "(\<exists>w' xs. playNoise initial_App 0 example_audio = (Inr (), w')
     \<and> CreateBuffer 0 1 44100 44100 \<in> set (issued example_audio w')
     \<and> channelData w' (0, 0) = Some xs
     \<and> length xs = 44100
     \<and> (\<forall>x\<in>set xs. - 1 \<le> x \<and> x \<le> 1))
   \<and> (\<exists>w' xs. playNoise (duration_onChange (to_double 0.3) initial_App) 0 example_audio = (Inr (), w')
     \<and> channelData w' (0, 0) = Some xs
     \<and> length xs = 13230)"
proof -
  have f: "fresh example_audio = 0" "sampleRate example_audio = 44100"
    by (simp_all add: example_audio_def)
  have rv: "\<forall>n. 0 \<le> random_values example_audio n \<and> random_values example_audio n < 1"
    by (simp add: example_audio_def)
  have p: "times_double (sampleRate example_audio) (duration (noiseSequence initial_App)) = 44100"
    by (simp add: example_audio_def initial_App_def times_double_def to_double_44100)
  have h: "1 \<le> times_double (sampleRate example_audio) (duration (noiseSequence initial_App))"
    "times_double (sampleRate example_audio) (duration (noiseSequence initial_App)) < 2 ^ 32"
    "(0::real) \<le> 0"
    by (simp_all add: p)
  note r = noise_buffer_length_and_range [OF h rv, unfolded p, unfolded f]
  from r obtain w' xs where "playNoise initial_App 0 example_audio = (Inr (), w')"
    "CreateBuffer 0 1 (length xs) 44100 \<in> set (issued example_audio w')"
    "channelData w' (0, 0) = Some xs" "length xs = 44100"
    "\<forall>x\<in>set xs. - 1 \<le> x \<and> x \<le> 1"
    by auto
  then have one: "\<exists>w' xs. playNoise initial_App 0 example_audio = (Inr (), w')
     \<and> CreateBuffer 0 1 44100 44100 \<in> set (issued example_audio w')
     \<and> channelData w' (0, 0) = Some xs
     \<and> length xs = 44100
     \<and> (\<forall>x\<in>set xs. - 1 \<le> x \<and> x \<le> 1)"
    by auto
  define app where "app = duration_onChange (to_double 0.3) initial_App"
  have d: "duration (noiseSequence app) = 5404319552844595 / 18014398509481984"
    by (simp add: app_def duration_onChange_def to_double_3_10)
  have q: "times_double (sampleRate example_audio) (duration (noiseSequence app)) = 13230"
    by (simp only: times_double_def d f product_at_3_10)
  have k: "1 \<le> times_double (sampleRate example_audio) (duration (noiseSequence app))"
    "times_double (sampleRate example_audio) (duration (noiseSequence app)) < 2 ^ 32"
    "(0::real) \<le> 0"
    by (simp_all add: q)
  note r' = noise_buffer_length_and_range [OF k rv, unfolded q, unfolded f]
  from r' obtain w' xs where "playNoise app 0 example_audio = (Inr (), w')"
    "channelData w' (0, 0) = Some xs" "length xs = 13230"
    by auto
  then have two: "\<exists>w' xs. playNoise (duration_onChange (to_double 0.3) initial_App) 0 example_audio = (Inr (), w')
     \<and> channelData w' (0, 0) = Some xs
     \<and> length xs = 13230"
    unfolding app_def by auto
  from one two show ?thesis ..
qed

subsection \<open>A tick on a suspended context\<close>

lemma kinds_created_append: "kinds_created (xs @ ys) = kinds_created xs @ kinds_created ys"
  by (induction xs rule: kinds_created.induct) simp_all

lemma starts_append: "starts (xs @ ys) = starts xs @ starts ys"
  by (induction xs rule: starts.induct) simp_all

lemma stops_append: "stops (xs @ ys) = stops xs @ stops ys"
  by (induction xs rule: stops.induct) simp_all

lemma fired_refl: "fired w w [] [] []"
  by (simp add: fired_def)

lemma fired_trans:
  "fired w w1 ks ss ts \<Longrightarrow> fired w1 w2 ks' ss' ts' \<Longrightarrow> fired w w2 (ks @ ks') (ss @ ss') (ts @ ts')"
  by (auto simp add: fired_def kinds_created_append starts_append stops_append)

lemma fired_issued:
  "fired w w' ks ss ts \<Longrightarrow>
     calls w' = calls w @ issued w w' \<and> kinds_created (issued w w') = ks
     \<and> starts (issued w w') = ss \<and> stops (issued w w') = ts"
  by (auto simp add: fired_def issued_def)

lemma sweep_fired:
  assumes "0 \<le> t" and "0 \<le> t + attack (sweepSequence app)"
    and "release (sweepSequence app) \<le> t + 2"
  shows "\<exists>w'. playSweep app t w = (Inr (), w') \<and> fired w w' [Oscillator, Gain] [t] [t + 2]"
  using assms by (simp add: playSweep_calls fired_def)

lemma pulse_fired:
  assumes "0 \<le> t"
  shows "\<exists>w'. playPulse app t w = (Inr (), w')
           \<and> fired w w' [Oscillator, Gain, Oscillator] [0, t] [t + 1]"
  using assms by (simp add: playPulse_calls fired_def)

lemma noise_fired:
  assumes "to_unsigned_long (times_double (sampleRate w) (duration (noiseSequence app))) \<noteq> 0"
    and "0 \<le> t"
  shows "\<exists>w'. playNoise app t w = (Inr (), w') \<and> fired w w' [BufferSource, BiquadFilter] [t] []"
  using assms by (simp add: playNoise_calls fired_def fill_frame noise_buffer_created_def)

lemma fire_fired:
  assumes "0 \<le> t"
    and "gate (steps (sweepSequence app)) n \<longrightarrow>
           0 \<le> t + attack (sweepSequence app) \<and> release (sweepSequence app) \<le> t + 2"
    and "gate (steps (noiseSequence app)) n \<longrightarrow>
           to_unsigned_long (times_double (sampleRate w) (duration (noiseSequence app))) \<noteq> 0"
  shows "\<exists>w'. fire app n t w = (Inr (), w')
     \<and> fired w w'
          ((if gate (steps (sweepSequence app)) n then [Oscillator, Gain] else [])
           @ (if gate (steps (pulseSequence app)) n then [Oscillator, Gain, Oscillator] else [])
           @ (if gate (steps (noiseSequence app)) n then [BufferSource, BiquadFilter] else []))
          ((if gate (steps (sweepSequence app)) n then [t] else [])
           @ (if gate (steps (pulseSequence app)) n then [0, t] else [])
           @ (if gate (steps (noiseSequence app)) n then [t] else []))
          ((if gate (steps (sweepSequence app)) n then [t + 2] else [])
           @ (if gate (steps (pulseSequence app)) n then [t + 1] else []))"
proof -
  define gs where "gs = gate (steps (sweepSequence app)) n"
  define gp where "gp = gate (steps (pulseSequence app)) n"
  define gn where "gn = gate (steps (noiseSequence app)) n"
  obtain w1 where w1: "when_gate gs (playSound app SWEEP t None) w = (Inr (), w1)"
    "fired w w1 (if gs then [Oscillator, Gain] else []) (if gs then [t] else [])
       (if gs then [t + 2] else [])"
  proof (cases gs)
    case True
    with assms(2) sweep_fired [OF assms(1), of app w] that show ?thesis
      by (auto simp add: gs_def when_gate_def playSound_def)
  next
    case False
    with that show ?thesis
      by (simp add: when_gate_def succeed_def fired_refl)
  qed
  obtain w2 where w2: "when_gate gp (playSound app PULSE t None) w1 = (Inr (), w2)"
    "fired w1 w2 (if gp then [Oscillator, Gain, Oscillator] else []) (if gp then [0, t] else [])
       (if gp then [t + 1] else [])"
  proof (cases gp)
    case True
    with pulse_fired [OF assms(1), of app w1] that show ?thesis
      by (auto simp add: when_gate_def playSound_def)
  next
    case False
    with that show ?thesis
      by (simp add: when_gate_def succeed_def fired_refl)
  qed
  have sr: "sampleRate w2 = sampleRate w"
    using w1(2) w2(2) by (simp add: fired_def)
  obtain w3 where w3: "when_gate gn (playSound app NOISE t None) w2 = (Inr (), w3)"
    "fired w2 w3 (if gn then [BufferSource, BiquadFilter] else []) (if gn then [t] else []) []"
  proof (cases gn)
    case True
    with assms(3) have "to_unsigned_long (times_double (sampleRate w2) (duration (noiseSequence app))) \<noteq> 0"
      by (simp add: gn_def sr)
    from noise_fired [OF this assms(1)] True that show ?thesis
      by (auto simp add: when_gate_def playSound_def)
  next
    case False
    with that show ?thesis
      by (simp add: when_gate_def succeed_def fired_refl)
  qed
  have w4: "when_gate (gate (steps (sampleSequence app)) n) (playSound app SAMPLE t None) w3 = (Inr (), w3)"
    by (simp add: when_gate_def playSound_def succeed_def)
  have "fire app n t w = (Inr (), w3)"
    by (simp add: fire_def andThen_def w1(1) w2(1) w3(1) w4
        gs_def [symmetric] gp_def [symmetric] gn_def [symmetric])
  moreover from fired_trans [OF fired_trans [OF w1(2) w2(2)] w3(2)]
  have "fired w w3
          ((if gs then [Oscillator, Gain] else [])
           @ (if gp then [Oscillator, Gain, Oscillator] else [])
           @ (if gn then [BufferSource, BiquadFilter] else []))
          ((if gs then [t] else []) @ (if gp then [0, t] else []) @ (if gn then [t] else []))
          ((if gs then [t + 2] else []) @ (if gp then [t + 1] else []))"
    by simp
  ultimately show ?thesis
    unfolding gs_def gp_def gn_def by blast
qed

lemma resume_with_history:
  "resume w = with_history (calls w @ [Resume])
     (if resume_succeeds w then Running else state w) (resume_succeeds w) (w\<lparr> calls := [] \<rparr>)"
  by (simp add: resume_def with_history_def)

lemma running_with_history:
  "w\<lparr> state := Running \<rparr> = with_history (calls w) Running (resume_succeeds w) (w\<lparr> calls := [] \<rparr>)"
  by (simp add: with_history_def)

lemma fire_with_history:
  "fire app n t (with_history c s b w) =
     (fst (fire app n t w), with_history c s b (snd (fire app n t w)))"
  using oblivious_fire [of app n t] by (simp add: oblivious_def split_def)

lemma gates_of_playing_App:
  "gate (steps (sweepSequence playing_App)) 1"
  "\<not> gate (steps (pulseSequence playing_App)) 1"
  "\<not> gate (steps (noiseSequence playing_App)) 1"
  "\<not> gate (steps (sampleSequence playing_App)) 1"
proof -
  have len: "(1::int) < int (length new_steps)"
    by (simp add: new_steps_def BEATS_PER_BAR_def)
  have "index (trackSteps 1 new_steps) 1 = Some (\<not> new_steps ! nat 1)"
    by (rule index_trackSteps_same [OF _ len]) simp
  then show "gate (steps (sweepSequence playing_App)) 1"
    by (simp add: playing_App_def handleStepClick_def initial_App_def toggleSequenceStep_steps
        gate_def truthy_def new_steps_def BEATS_PER_BAR_def)
  have "index new_steps 1 = Some False"
    by (simp add: index_def new_steps_def BEATS_PER_BAR_def)
  then show "\<not> gate (steps (pulseSequence playing_App)) 1"
    "\<not> gate (steps (noiseSequence playing_App)) 1"
    "\<not> gate (steps (sampleSequence playing_App)) 1"
    by (simp_all add: playing_App_def handleStepClick_def initial_App_def gate_def truthy_def)
qed

text \<open>
  Claim C5 asks that a tick whose \<^verbatim>\<open>resume\<close> fails fire no track. The program does not
  look at the outcome: with the context suspended and \<^verbatim>\<open>resume\<close> failing, the tick of a
  sequencer whose Sweep gate at the next position is set calls \<^verbatim>\<open>resume\<close>, advances the
  grid to position 1 and starts the Sweep oscillator, the context still being suspended.
\<close>

theorem tick_fires_after_failed_resume:
  "state failing_audio = Suspended \<and> \<not> resume_succeeds failing_audio
   \<and> (\<exists>app' w'. tick playing_App failing_audio = (Inr (), app', w')
         \<and> currentStep app' = 1
         \<and> state w' = Suspended
         \<and> hd (calls w') = Resume
         \<and> Create Oscillator 0 \<in> set (calls w')
         \<and> start_times 0 (calls w') = [0]
         \<and> stop_times 0 (calls w') = [2])"
proof -
  have a: "attack (sweepSequence playing_App) = 0.2" "release (sweepSequence playing_App) = 0.5"
    "currentStep playing_App = 0" "isPlaying playing_App" "selectedTrack playing_App = SWEEP"
    by (simp_all add: playing_App_def handleStepClick_def initial_App_def toggleSequenceStep_update)
  have w: "state failing_audio = Suspended" "\<not> resume_succeeds failing_audio"
    "currentTime (resume failing_audio) = 0" "fresh (resume failing_audio) = 0"
    "calls (resume failing_audio) = [Resume]" "state (resume failing_audio) = Suspended"
    by (simp_all add: failing_audio_def example_audio_def resume_def)
  have n: "1 smod BEATS_PER_BAR = 1"
    by (simp add: smod_nonneg)
  have sweep: "playSweep playing_App 0 (resume failing_audio) =
    (Inr (), (resume failing_audio)
      \<lparr> fresh := 2,
        calls := [Resume, Create Oscillator 0, SetPeriodicWave 0, SetValue (Frequency 0) 380,
          Create Gain 1, CancelScheduledValues (GainValue 1) 0, SetValueAtTime (GainValue 1) 0 0,
          LinearRampToValueAtTime (GainValue 1) 1 0.2, LinearRampToValueAtTime (GainValue 1) 0 1.5,
          Connect (Node 0) (Node 1), Connect (Node 1) Analyzer, Connect Analyzer Destination,
          Start 0 0, Stop 0 2] \<rparr>)"
    by (subst playSweep_calls)
      (simp_all add: a w numeral_2_eq_2)
  have "fire playing_App 1 0 (resume failing_audio) = playSweep playing_App 0 (resume failing_audio)"
    by (simp add: fire_def when_gate_def gates_of_playing_App playSound_def andThen_def
        succeed_def split: prod.split sum.split)
  then have "tick playing_App failing_audio =
    (Inr (), playing_App\<lparr> currentStep := 1 \<rparr>, snd (playSweep playing_App 0 (resume failing_audio)))"
    by (simp add: tick_def Let_def a w n sweep)
  then show ?thesis
    by (simp add: w sweep)
qed

text \<open>
  Claim C5 as amended. On a tick at which the context is suspended, the scheduler calls
  \<^verbatim>\<open>resume\<close> before any other call and does not look at its outcome: whether the
  resumption succeeds or fails, the grid advances and the tick makes the calls and returns
  the result of a tick on a running context. When no synthesizer throws (the clock and the
  times of a due Sweep are not negative, the buffer of a due Noise is not empty), the tick
  returns without an error and fires exactly the tracks whose gate at the new position is
  set, in the order Sweep, Pulse, Noise: it creates their nodes, starts their sources at
  the time read from the audio clock (the LFO of Pulse at 0) and schedules their stops.
\<close>

theorem tick_resumes_and_fires_regardless:
  assumes "isPlaying app" and "state w = Suspended"
  shows "\<exists>result app' w' w2.
       tick app w = (result, app', w')
     \<and> tick app (w\<lparr> state := Running \<rparr>) = (result, app', w2)
     \<and> currentStep app' = (currentStep app + 1) smod BEATS_PER_BAR
     \<and> calls w2 = calls w @ issued w w2
     \<and> calls w' = calls w @ Resume # issued w w2
     \<and> state w' = (if resume_succeeds w then Running else Suspended)
     \<and> (0 \<le> currentTime w
          \<and> (due app SWEEP \<longrightarrow> 0 \<le> currentTime w + attack (sweepSequence app)
                \<and> release (sweepSequence app) \<le> currentTime w + 2)
          \<and> (due app NOISE \<longrightarrow>
                to_unsigned_long (times_double (sampleRate w) (duration (noiseSequence app))) \<noteq> 0)
          \<longrightarrow> result = Inr ()
            \<and> kinds_created (issued w w') =
                 (if due app SWEEP then [Oscillator, Gain] else [])
                 @ (if due app PULSE then [Oscillator, Gain, Oscillator] else [])
                 @ (if due app NOISE then [BufferSource, BiquadFilter] else [])
            \<and> starts (issued w w') =
                 (if due app SWEEP then [currentTime w] else [])
                 @ (if due app PULSE then [0, currentTime w] else [])
                 @ (if due app NOISE then [currentTime w] else [])
            \<and> stops (issued w w') =
                 (if due app SWEEP then [currentTime w + 2] else [])
                 @ (if due app PULSE then [currentTime w + 1] else []))"
proof -
  define n where "n = (currentStep app + 1) smod BEATS_PER_BAR"
  define u where "u = w\<lparr> calls := [] \<rparr>"
  define out where "out = fire app n (currentTime w) u"
  define w' where "w' = with_history (calls w @ [Resume])
      (if resume_succeeds w then Running else Suspended) (resume_succeeds w) (snd out)"
  define w2 where "w2 = with_history (calls w) Running (resume_succeeds w) (snd out)"
  have t1: "tick app w = (fst out, app\<lparr> currentStep := n \<rparr>, w')"
  proof -
    have ct: "currentTime (resume w) = currentTime w"
      by (simp add: resume_def)
    have "fire app n (currentTime w) (resume w) = (fst out, w')"
      using assms(2) by (simp add: resume_with_history [of w] fire_with_history out_def u_def w'_def)
    then show ?thesis
      using assms by (simp add: tick_def Let_def n_def ct)
  qed
  have t2: "tick app (w\<lparr> state := Running \<rparr>) = (fst out, app\<lparr> currentStep := n \<rparr>, w2)"
  proof -
    have "fire app n (currentTime w) (w\<lparr> state := Running \<rparr>) = (fst out, w2)"
      by (simp add: running_with_history [of w] fire_with_history out_def u_def w2_def)
    then show ?thesis
      using assms(1) by (simp add: tick_def Let_def n_def)
  qed
  have i2: "issued w w2 = calls (snd out)"
    by (simp add: issued_def w2_def with_history_def)
  have i1: "issued w w' = Resume # calls (snd out)"
    by (simp add: issued_def w'_def with_history_def)
  have basic: "currentStep (app\<lparr> currentStep := n \<rparr>) = (currentStep app + 1) smod BEATS_PER_BAR
     \<and> calls w2 = calls w @ issued w w2
     \<and> calls w' = calls w @ Resume # issued w w2
     \<and> state w' = (if resume_succeeds w then Running else Suspended)"
    by (simp add: i2 n_def) (simp add: w'_def w2_def with_history_def)
  have fires: "fst out = Inr ()
            \<and> kinds_created (issued w w') =
                 (if due app SWEEP then [Oscillator, Gain] else [])
                 @ (if due app PULSE then [Oscillator, Gain, Oscillator] else [])
                 @ (if due app NOISE then [BufferSource, BiquadFilter] else [])
            \<and> starts (issued w w') =
                 (if due app SWEEP then [currentTime w] else [])
                 @ (if due app PULSE then [0, currentTime w] else [])
                 @ (if due app NOISE then [currentTime w] else [])
            \<and> stops (issued w w') =
                 (if due app SWEEP then [currentTime w + 2] else [])
                 @ (if due app PULSE then [currentTime w + 1] else [])"
    if ok: "0 \<le> currentTime w"
      "due app SWEEP \<longrightarrow> 0 \<le> currentTime w + attack (sweepSequence app)
                \<and> release (sweepSequence app) \<le> currentTime w + 2"
      "due app NOISE \<longrightarrow>
                to_unsigned_long (times_double (sampleRate w) (duration (noiseSequence app))) \<noteq> 0"
  proof -
    have d: "due app SWEEP = gate (steps (sweepSequence app)) n"
      "due app PULSE = gate (steps (pulseSequence app)) n"
      "due app NOISE = gate (steps (noiseSequence app)) n"
      by (simp_all add: due_def n_def)
    have sr: "sampleRate u = sampleRate w" and cu: "calls u = []"
      by (simp_all add: u_def)
    from fire_fired [of "currentTime w" app n u] ok
    obtain u' where u': "fire app n (currentTime w) u = (Inr (), u')"
      "fired u u'
          ((if due app SWEEP then [Oscillator, Gain] else [])
           @ (if due app PULSE then [Oscillator, Gain, Oscillator] else [])
           @ (if due app NOISE then [BufferSource, BiquadFilter] else []))
          ((if due app SWEEP then [currentTime w] else [])
           @ (if due app PULSE then [0, currentTime w] else [])
           @ (if due app NOISE then [currentTime w] else []))
          ((if due app SWEEP then [currentTime w + 2] else [])
           @ (if due app PULSE then [currentTime w + 1] else []))"
      unfolding d sr by blast
    have o: "fst out = Inr ()" "snd out = u'"
      by (simp_all add: out_def u'(1))
    from fired_issued [OF u'(2)] have "calls u' = issued u u'"
      by (simp add: cu)
    with fired_issued [OF u'(2)] show ?thesis
      by (simp add: i1 o)
  qed
  show ?thesis
    using t1 t2 basic fires by blast
qed

theorem tick_resumes_and_fires_regardless_witness:
  "isPlaying playing_App \<and> state failing_audio = Suspended
   \<and> (\<exists>result app' w' w2.
       tick playing_App failing_audio = (result, app', w')
     \<and> tick playing_App (failing_audio\<lparr> state := Running \<rparr>) = (result, app', w2)
     \<and> calls w' = calls failing_audio @ Resume # issued failing_audio w2
     \<and> state w' = Suspended
     \<and> result = Inr ()
     \<and> kinds_created (issued failing_audio w') = [Oscillator, Gain]
     \<and> starts (issued failing_audio w') = [0]
     \<and> stops (issued failing_audio w') = [2])"
proof -
  have p: "isPlaying playing_App"
    by (simp add: playing_App_def)
  have s: "state failing_audio = Suspended"
    by (simp add: failing_audio_def example_audio_def)
  have r: "\<not> resume_succeeds failing_audio" "currentTime failing_audio = 0"
    by (simp_all add: failing_audio_def example_audio_def)
  have a: "attack (sweepSequence playing_App) = 0.2" "release (sweepSequence playing_App) = 0.5"
    "currentStep playing_App = 0"
    by (simp_all add: playing_App_def handleStepClick_def initial_App_def toggleSequenceStep_update)
  have n: "1 smod BEATS_PER_BAR = 1"
    by (simp add: smod_nonneg)
  have d: "due playing_App SWEEP" "\<not> due playing_App PULSE" "\<not> due playing_App NOISE"
    by (simp_all add: due_def a n gates_of_playing_App)
  from tick_resumes_and_fires_regardless [OF p s] show ?thesis
    using p s by (simp add: r a d) blast
qed

end
